theory Spec2Isabelle
  imports Main "HOL-Library.Word"
begin

unbundle bit_operations_syntax

section \<open>Status values and daemon replies\<close>

text \<open>
  \<open>tensorflow::Status\<close> is either OK or an error with a code and a message. The errors
  built by \<open>nrt_error_status\<close> also carry the two-level daemon status they were built
  from, so that two failures of different RPC attempts stay distinguishable.
\<close>

type_synonym u32 = "32 word"

datatype error_code = INTERNAL | UNAVAILABLE | UNIMPLEMENTED | OUT_OF_RANGE

datatype grpc_code = GRPC_OK | GRPC_UNAVAILABLE | GRPC_OTHER nat

datatype nerr = NERR_OK | NERR_INFER_COMPLETED_WITH_NUM_ERR | NERR_OTHER nat

datatype status = OK | Error error_code string "(grpc_code \<times> nerr) option"

text \<open>What the daemon answers to a unary RPC: the transport status and the response's
  own status code.\<close>

record rpc_reply =
  grpc :: grpc_code
  code :: nerr

text \<open>
  Modelled from the spec: the macros \<open>NRT_CHECK_RETURN\<close> and \<open>NRT_CHECK_LOG\<close> and the
  helper \<open>nrt_error_status\<close> live in the header \<open>neuron_clib.h\<close>, which is missing. The
  spec describes them as the check of the two-level status (transport, then daemon
  code) that is translated into a uniform internal error carrying the daemon's status.
  \<open>nrt_ok\<close> is the condition under which \<open>NRT_CHECK_RETURN\<close> does not return.
\<close>

definition nrt_ok :: "'a rpc_reply_scheme \<Rightarrow> bool" where
  "nrt_ok r = (grpc r = GRPC_OK \<and> code r = NERR_OK)"

definition nrt_error_status :: "string \<Rightarrow> 'a rpc_reply_scheme \<Rightarrow> status" where
  "nrt_error_status fn_name r =
     Error INTERNAL (''nrt::'' @ fn_name @ '' failed'') (Some (grpc r, code r))"

text \<open>The constants of the missing header are parameters of the model.\<close>

record nrt_consts =
  NRT_INVALID_NN_ID :: u32
  EXEC_MAX_CHUNK_SIZE :: nat
  MAX_NUM_CORES :: nat
  MIN_NUM_CORES :: int
  DEFAULT_NUM_CORES :: int

section \<open>NeuronDevice: one execution group\<close>

record NeuronDevice =
  nrtd_address :: string
  create_eg_done :: bool
  eg_id :: u32
  num_cores :: u32
  running_nn_id :: u32
  nn_id_set :: "u32 set"

text \<open>The RPCs a device issues, in the order it issues them.\<close>

datatype rpc =
    CreateEg "u32 option"
  | Stop u32
  | Start u32
  | Unload u32
  | DestroyEg u32

definition is_busy :: "nrt_consts \<Rightarrow> NeuronDevice \<Rightarrow> bool" where
  "is_busy K d = (running_nn_id d \<noteq> NRT_INVALID_NN_ID K)"

definition running :: "nrt_consts \<Rightarrow> NeuronDevice \<Rightarrow> u32 \<Rightarrow> bool" where
  "running K d nn_id = (running_nn_id d = nn_id \<and> NRT_INVALID_NN_ID K \<noteq> running_nn_id d)"

definition nn_get_current_running :: "NeuronDevice \<Rightarrow> u32" where
  "nn_get_current_running d = running_nn_id d"

definition set_running :: "NeuronDevice \<Rightarrow> u32 \<Rightarrow> NeuronDevice" where
  "set_running d nn_id = d\<lparr>running_nn_id := nn_id\<rparr>"

text \<open>
  \<open>NeuronDevice::start_model\<close>. The daemon's answers to the stop and to the start
  request are inputs; the result is the returned status, the device afterwards and the
  RPCs issued. Each \<open>NRT_CHECK_RETURN\<close> is an early return.
\<close>

definition start_model ::
  "nrt_consts \<Rightarrow> rpc_reply \<Rightarrow> rpc_reply \<Rightarrow> NeuronDevice \<Rightarrow> u32 \<Rightarrow> status \<times> NeuronDevice \<times> rpc list"
where
  "start_model K stop_r start_r d nn_id =
     (if \<not> create_eg_done d
      then (Error INTERNAL ''neuron_device is not initialized'' None, d, [])
      else
        let stopping = (\<not> running K d nn_id \<and> is_busy K d);
            t1 = (if stopping then [Stop (nn_get_current_running d)] else [])
        in
          if stopping \<and> \<not> nrt_ok stop_r
          then (nrt_error_status ''stop'' stop_r, d, t1)
          else
            let d1 = (if stopping then set_running d (NRT_INVALID_NN_ID K) else d) in
              if \<not> is_busy K d1
              then
                (if \<not> nrt_ok start_r
                 then (nrt_error_status ''start'' start_r, d1, t1 @ [Start nn_id])
                 else (OK, set_running d1 nn_id, t1 @ [Start nn_id]))
              else (OK, d1, t1))"

text \<open>
  \<open>init_stub\<close>: building the channel or the stub can fail; which of the three happens
  is decided by the gRPC library, so it is an input.
\<close>

datatype stub_result = StubReady | NoChannel | NoStub

definition init_stub :: "stub_result \<Rightarrow> status" where
  "init_stub sr =
     (case sr of
        NoChannel \<Rightarrow> Error UNAVAILABLE ''cannot establish grpc channel to neuron-rtd server'' None
      | NoStub \<Rightarrow> Error UNAVAILABLE ''cannot create stub'' None
      | StubReady \<Rightarrow> OK)"

record create_eg_reply = rpc_reply +
  nc_count :: u32
  h_eg :: u32

type_synonym create_eg_env = "stub_result \<times> create_eg_reply"

text \<open>The request of \<open>create_eg\<close>: \<open>nc_count\<close> is set only for a non-negative
  \<open>num_cores_req\<close>, converted to \<open>uint32_t\<close>.\<close>

definition create_eg_request :: "int \<Rightarrow> rpc" where
  "create_eg_request num_cores_req =
     CreateEg (if num_cores_req \<ge> 0 then Some (word_of_int num_cores_req) else None)"

text \<open>\<open>NeuronDevice::initialize\<close>.\<close>

definition NeuronDevice_initialize ::
  "nrt_consts \<Rightarrow> create_eg_env \<Rightarrow> NeuronDevice \<Rightarrow> string \<Rightarrow> int \<Rightarrow> status \<times> NeuronDevice \<times> rpc list"
where
  "NeuronDevice_initialize K e d address num_cores_req =
     (let d1 = d\<lparr>nrtd_address := address\<rparr>; response = snd e in
        if init_stub (fst e) \<noteq> OK then (init_stub (fst e), d1, [])
        else if grpc response \<noteq> GRPC_OK \<and> GRPC_UNAVAILABLE = grpc response
        then
          (let message = '' is unavailable. Is neuron-rtd running?'';
               unix_prefix = ''unix:'';
               message' = (if take (length unix_prefix) address = unix_prefix
                           then message @ '' Is socket '' @ drop (length unix_prefix) address
                                @ '' writable?''
                           else message)
           in (Error UNAVAILABLE (''grpc server '' @ address @ message') None, d1,
               [create_eg_request num_cores_req]))
        else if \<not> nrt_ok response
        then (nrt_error_status ''create_eg'' response, d1, [create_eg_request num_cores_req])
        else (OK,
              d1\<lparr>num_cores := nc_count response, eg_id := h_eg response,
                 create_eg_done := True, running_nn_id := NRT_INVALID_NN_ID K\<rparr>,
              [create_eg_request num_cores_req]))"

section \<open>NeuronDeviceManager: the pool of execution groups\<close>

record NeuronDeviceManager =
  mgr_nrtd_address :: string
  device_array :: "NeuronDevice list"
  num_devices :: nat
  device_index :: nat
  ready :: bool
  path_set :: bool

text \<open>
  The loop of \<open>init_devices\<close>, over the entries of \<open>num_cores_req_vector\<close> that are still
  to be tried; \<open>idx\<close> is the loop index and \<open>env idx\<close> what the host answers to the
  initialisation of \<open>device_array_[idx]\<close>. A failure is the \<open>break\<close>.
\<close>

fun init_devices_loop ::
  "nrt_consts \<Rightarrow> (nat \<Rightarrow> create_eg_env) \<Rightarrow> int list \<Rightarrow> nat \<Rightarrow> status \<Rightarrow> NeuronDeviceManager
     \<Rightarrow> status \<times> NeuronDeviceManager \<times> rpc list"
where
  "init_devices_loop K env [] idx st m = (st, m, [])"
| "init_devices_loop K env (num_cores_req # rest) idx st m =
     (case NeuronDevice_initialize K (env idx) (device_array m ! idx) (mgr_nrtd_address m)
             num_cores_req of
        (st', d', t) \<Rightarrow>
          let m1 = m\<lparr>device_array := (device_array m)[idx := d']\<rparr> in
            if st' \<noteq> OK then (st', m1, t)
            else (case init_devices_loop K env rest (Suc idx) st'
                         (m1\<lparr>num_devices := Suc (num_devices m1)\<rparr>) of
                    (st'', m2, t2) \<Rightarrow> (st'', m2, t @ t2)))"

definition init_devices ::
  "nrt_consts \<Rightarrow> (nat \<Rightarrow> create_eg_env) \<Rightarrow> NeuronDeviceManager \<Rightarrow> int list
     \<Rightarrow> status \<times> NeuronDeviceManager \<times> rpc list"
where
  "init_devices K env m num_cores_req_vector =
     (case init_devices_loop K env num_cores_req_vector 0
             (Error INTERNAL ''No NeuronCore Group can be initialized.'' None) m of
        (st, m', t) \<Rightarrow> if 0 = num_devices m' then (st, m', t) else (OK, m', t))"

text \<open>
  The search of \<open>init_default_device\<close>: \<open>n_cores\<close> (the local \<open>num_cores\<close>) counts down by one from
  \<open>opt_device_size\<close> while it is at least \<open>MIN_NUM_CORES\<close>; \<open>k\<close> numbers the attempts.
\<close>

function search_default_device ::
  "nrt_consts \<Rightarrow> (nat \<Rightarrow> create_eg_env) \<Rightarrow> int \<Rightarrow> nat \<Rightarrow> status \<Rightarrow> NeuronDeviceManager
     \<Rightarrow> status \<times> NeuronDeviceManager \<times> rpc list"
where
  "search_default_device K env n_cores k st m =
     (if n_cores \<ge> MIN_NUM_CORES K
      then
        (case NeuronDevice_initialize K (env k) (device_array m ! 0) (mgr_nrtd_address m)
                n_cores of
           (st', d', t) \<Rightarrow>
             let m1 = m\<lparr>device_array := (device_array m)[0 := d']\<rparr> in
               if st' = OK then (st', m1\<lparr>num_devices := 1\<rparr>, t)
               else (case search_default_device K env (n_cores - 1) (Suc k) st' m1 of
                       (st'', m2, t2) \<Rightarrow> (st'', m2, t @ t2)))
      else (st, m\<lparr>num_devices := 0\<rparr>, []))"
  by pat_completeness auto
termination
  by (relation "measure (\<lambda>(K, env, n_cores, k, st, m). nat (n_cores - MIN_NUM_CORES K + 1))")
    auto

definition init_default_device ::
  "nrt_consts \<Rightarrow> (nat \<Rightarrow> create_eg_env) \<Rightarrow> NeuronDeviceManager \<Rightarrow> int
     \<Rightarrow> status \<times> NeuronDeviceManager \<times> rpc list"
where
  "init_default_device K env m opt_device_size =
     (if opt_device_size < 0 \<or> opt_device_size > 64
      then
        (case NeuronDevice_initialize K (env 0) (device_array m ! 0) (mgr_nrtd_address m)
                (DEFAULT_NUM_CORES K) of
           (st, d', t) \<Rightarrow>
             (st, m\<lparr>device_array := (device_array m)[0 := d'],
                    num_devices := (if st = OK then 1 else 0)\<rparr>, t))
      else if opt_device_size = 1 then init_devices K env m [1, 1, 1, 1]
      else if opt_device_size = 2 then init_devices K env m [2, 2]
      else search_default_device K env opt_device_size 0
             (Error INTERNAL ''No NeuronCore Group can be initialized.'' None) m)"


subsection \<open>Reading the configured sizing list\<close>

text \<open>
  \<open>std::string::find(pattern, start)\<close>: the first position at or after \<open>start\<close> where
  \<open>pattern\<close> occurs, or \<open>npos\<close> (here \<open>None\<close>).
\<close>

definition string_find :: "string \<Rightarrow> string \<Rightarrow> nat \<Rightarrow> nat option" where
  "string_find data pattern start =
     List.find (\<lambda>i. take (length pattern) (drop i data) = pattern)
       [start ..< Suc (length data)]"

text \<open>
  \<open>remove_pattern\<close>. The source declares \<open>size_t pos = data.find(pattern, pos)\<close>: the
  start position of the search is the new variable \<open>pos\<close> itself, read before it has a
  value. What it holds is not determined by the program, so the model takes it as an
  input: \<open>indet idx\<close> is the value read in iteration \<open>idx\<close>.
\<close>

function remove_pattern_loop :: "(nat \<Rightarrow> nat) \<Rightarrow> string \<Rightarrow> nat \<Rightarrow> nat \<Rightarrow> string \<Rightarrow> string" where
  "remove_pattern_loop indet pattern string_length idx data =
     (if idx < string_length
      then (case string_find data pattern (indet idx) of
              None \<Rightarrow> data
            | Some pos \<Rightarrow>
                remove_pattern_loop indet pattern string_length (Suc idx)
                  (take pos data @ drop (pos + length pattern) data))
      else data)"
  by pat_completeness auto
termination
  by (relation "measure (\<lambda>(indet, pattern, string_length, idx, data). string_length - idx)") auto

declare remove_pattern_loop.simps [simp del]

definition remove_pattern :: "(nat \<Rightarrow> nat) \<Rightarrow> string \<Rightarrow> string \<Rightarrow> string" where
  "remove_pattern indet data pattern = remove_pattern_loop indet pattern (length data) 0 data"

text \<open>
  \<open>std::stoi\<close> (base 10) skips leading white space, reads an optional sign and the
  longest run of digits, and ignores what follows; it throws \<open>invalid_argument\<close> when
  there is no digit and \<open>out_of_range\<close> when the value does not fit an \<open>int\<close>.
  \<open>stoi_no_throw\<close> turns both exceptions into \<open>-1\<close>.
\<close>

definition isspace :: "char \<Rightarrow> bool" where
  "isspace c = (c = CHR '' '' \<or> (9 \<le> (of_char c :: nat) \<and> (of_char c :: nat) \<le> 13))"

definition isdigit :: "char \<Rightarrow> bool" where
  "isdigit c = (48 \<le> (of_char c :: nat) \<and> (of_char c :: nat) \<le> 57)"

definition digits_value :: "string \<Rightarrow> int" where
  "digits_value ds = foldl (\<lambda>acc c. 10 * acc + (int (of_char c) - 48)) 0 ds"

definition stoi_no_throw :: "string \<Rightarrow> int" where
  "stoi_no_throw str =
     (let s1 = dropWhile isspace str;
          negative = (s1 \<noteq> [] \<and> hd s1 = CHR ''-'');
          s2 = (if s1 \<noteq> [] \<and> (hd s1 = CHR ''-'' \<or> hd s1 = CHR ''+'') then tl s1 else s1);
          ds = takeWhile isdigit s2;
          v = (if negative then - digits_value ds else digits_value ds)
      in if ds = [] then - 1
         else if v < - (2 ^ 31) \<or> v > 2 ^ 31 - 1 then - 1
         else v)"

text \<open>
  \<open>std::getline(stream, substr, delim)\<close> on a good stream whose unread part is \<open>rest\<close>:
  the characters up to the delimiter, which is consumed; without a delimiter the rest of
  the stream is read and the end-of-file bit is set, so the stream is no longer good.
\<close>

definition getline :: "string \<Rightarrow> char \<Rightarrow> string \<times> string \<times> bool" where
  "getline rest delim =
     (if delim \<in> set rest
      then (takeWhile (\<lambda>c. c \<noteq> delim) rest, tl (dropWhile (\<lambda>c. c \<noteq> delim) rest), True)
      else (rest, [], False))"

text \<open>
  The parsing loop of \<open>NeuronDeviceManager::initialize\<close>; the first argument is the
  number of iterations left, \<open>MAX_NUM_CORES - idx\<close>. The result is
  \<open>num_cores_req_vector\<close> after the loop.
\<close>

fun parse_group_sizes :: "nat \<Rightarrow> string \<Rightarrow> bool \<Rightarrow> int list \<Rightarrow> int list" where
  "parse_group_sizes 0 rest good v = v"
| "parse_group_sizes (Suc n) rest good v =
     (if \<not> good then v
      else (case getline rest CHR '','' of
              (substr, rest', good') \<Rightarrow>
                if substr = [] then parse_group_sizes n rest' good' v
                else
                  let num_cores_req = stoi_no_throw substr in
                    if num_cores_req < 0 \<or> num_cores_req > 64 then []
                    else parse_group_sizes n rest' good' (v @ [num_cores_req])))"

subsection \<open>Initialisation and placement\<close>

text \<open>What the host answers during an initialisation: the environment variables, the
  manager's own stub, each device initialisation in turn, and the values read from the
  uninitialised \<open>pos\<close> in the two calls of \<open>remove_pattern\<close>.\<close>

record host_env =
  getenv_NEURON_RTD_ADDRESS :: "string option"
  getenv_NEURONCORE_GROUP_SIZES :: "string option"
  manager_stub :: stub_result
  create_eg_answers :: "nat \<Rightarrow> create_eg_env"
  indeterminate_pos :: "nat \<Rightarrow> nat \<Rightarrow> nat"

definition env_get :: "string option \<Rightarrow> string \<Rightarrow> string" where
  "env_get str default_env_var = (case str of Some s \<Rightarrow> s | None \<Rightarrow> default_env_var)"

definition resolve_group_sizes :: "nrt_consts \<Rightarrow> host_env \<Rightarrow> string \<Rightarrow> int list" where
  "resolve_group_sizes K E neuron_device_sizes_raw =
     (let neuron_device_sizes = remove_pattern (indeterminate_pos E 0) neuron_device_sizes_raw ''['';
          neuron_device_sizes' = remove_pattern (indeterminate_pos E 1) neuron_device_sizes '']''
      in parse_group_sizes (MAX_NUM_CORES K) neuron_device_sizes' True [])"

definition NeuronDeviceManager_initialize ::
  "nrt_consts \<Rightarrow> host_env \<Rightarrow> NeuronDeviceManager \<Rightarrow> int
     \<Rightarrow> status \<times> NeuronDeviceManager \<times> rpc list"
where
  "NeuronDeviceManager_initialize K E m opt_device_size =
     (let m1 = m\<lparr>path_set := True,
                 mgr_nrtd_address :=
                   env_get (getenv_NEURON_RTD_ADDRESS E) ''unix:/run/neuron.sock''\<rparr>
      in
        if init_stub (manager_stub E) \<noteq> OK then (init_stub (manager_stub E), m1, [])
        else
          let neuron_device_sizes_raw = env_get (getenv_NEURONCORE_GROUP_SIZES E) [];
              num_cores_req_vector = resolve_group_sizes K E neuron_device_sizes_raw
          in
            (case (if neuron_device_sizes_raw = []
                   then init_default_device K (create_eg_answers E) m1 opt_device_size
                   else if num_cores_req_vector = []
                   then init_default_device K (create_eg_answers E) m1 opt_device_size
                   else init_devices K (create_eg_answers E) m1 num_cores_req_vector) of
               (st, m2, t) \<Rightarrow>
                 if st \<noteq> OK then (st, m2, t) else (OK, m2\<lparr>ready := True\<rparr>, t)))"

text \<open>
  \<open>apply_for_device\<close>: the device handed out is \<open>&device_array_[device_index_]\<close>, here
  its index.
\<close>

definition apply_for_device ::
  "nrt_consts \<Rightarrow> host_env \<Rightarrow> NeuronDeviceManager \<Rightarrow> int
     \<Rightarrow> status \<times> nat option \<times> NeuronDeviceManager \<times> rpc list"
where
  "apply_for_device K E m opt_device_size =
     (case (if \<not> ready m then NeuronDeviceManager_initialize K E m opt_device_size
            else (OK, m, [])) of
        (st, m1, t) \<Rightarrow>
          if st \<noteq> OK then (st, None, m1, t)
          else
            let device = device_index m1;
                m2 = m1\<lparr>device_index := Suc (device_index m1)\<rparr>;
                m3 = (if device_index m2 \<ge> num_devices m2 then m2\<lparr>device_index := 0\<rparr> else m2)
            in (OK, Some device, m3, t))"

text \<open>\<open>n\<close> successive calls of \<open>apply_for_device\<close>: what each returned, and the pool
  afterwards.\<close>

fun apply_for_device_times ::
  "nrt_consts \<Rightarrow> host_env \<Rightarrow> int \<Rightarrow> nat \<Rightarrow> NeuronDeviceManager
     \<Rightarrow> (status \<times> nat option) list \<times> NeuronDeviceManager"
where
  "apply_for_device_times K E opt 0 m = ([], m)"
| "apply_for_device_times K E opt (Suc n) m =
     (case apply_for_device K E m opt of
        (st, device, m', t) \<Rightarrow>
          (case apply_for_device_times K E opt n m' of
             (rs, m'') \<Rightarrow> ((st, device) # rs, m'')))"

subsection \<open>What the host's answers amount to\<close>

text \<open>
  The vocabulary of the statements about initialisation: whether an answer lets
  \<open>NeuronDevice::initialize\<close> succeed, the RPCs one attempt issues, how many attempts
  succeed in a row from attempt \<open>idx\<close> on (at most \<open>n\<close>), and which attempt among \<open>n\<close>
  from attempt \<open>k\<close> on is the first to succeed (counted from \<open>k\<close>).
\<close>

definition create_eg_succeeds :: "create_eg_env \<Rightarrow> bool" where
  "create_eg_succeeds e = (fst e = StubReady \<and> nrt_ok (snd e))"

definition create_eg_rpcs :: "create_eg_env \<Rightarrow> int \<Rightarrow> rpc list" where
  "create_eg_rpcs e num_cores_req =
     (if fst e = StubReady then [create_eg_request num_cores_req] else [])"

fun groups_created :: "(nat \<Rightarrow> create_eg_env) \<Rightarrow> nat \<Rightarrow> nat \<Rightarrow> nat" where
  "groups_created env idx 0 = 0"
| "groups_created env idx (Suc n) =
     (if create_eg_succeeds (env idx) then Suc (groups_created env (Suc idx) n) else 0)"

fun first_granted :: "(nat \<Rightarrow> create_eg_env) \<Rightarrow> nat \<Rightarrow> nat \<Rightarrow> nat option" where
  "first_granted env k 0 = None"
| "first_granted env k (Suc n) =
     (if create_eg_succeeds (env k) then Some 0
      else map_option Suc (first_granted env (Suc k) n))"

text \<open>
  The spec's words for the default sizing: a binary search. Whatever the order of its
  probes, a binary search over \<open>n\<close> candidate sizes halves the candidates with each
  probe, so it makes at most \<open>\<lfloor>log\<^sub>2 n\<rfloor> + 1\<close> of them.
\<close>

fun binary_search_max_probes :: "nat \<Rightarrow> nat" where
  "binary_search_max_probes n = (if n = 0 then 0 else Suc (binary_search_max_probes (n div 2)))"

declare binary_search_max_probes.simps [simp del]

section \<open>Tensor bytes: the copy routines of tensor\_util.cc\<close>

text \<open>
  Memory is a store from addresses to bytes; a pointer is an address. Source and
  destination live in the same store, so that what a copy does when they overlap is part
  of the model.
\<close>

type_synonym addr = nat
type_synonym byte = "8 word"
type_synonym mem = "addr \<Rightarrow> byte"

text \<open>
  A \<open>uint64_t\<close> or \<open>uint32_t\<close> read through a cast pointer is the word made of the
  bytes at that address (least significant first); writing it stores its bytes back.
\<close>

primrec word_of_bytes :: "byte list \<Rightarrow> 'a::len word" where
  "word_of_bytes [] = 0"
| "word_of_bytes (b # bs) = ucast b OR push_bit 8 (word_of_bytes bs)"

definition byte_of_word :: "'a::len word \<Rightarrow> nat \<Rightarrow> byte" where
  "byte_of_word w k = ucast (drop_bit (8 * k) w)"

definition load_word :: "mem \<Rightarrow> addr \<Rightarrow> nat \<Rightarrow> 'a::len word" where
  "load_word m a n = word_of_bytes (map (\<lambda>k. m (a + k)) [0..<n])"

definition store_word :: "mem \<Rightarrow> addr \<Rightarrow> nat \<Rightarrow> 'a::len word \<Rightarrow> mem" where
  "store_word m a n w = (\<lambda>x. if a \<le> x \<and> x < a + n then byte_of_word w (x - a) else m x)"

text \<open>\<open>memcpy_uint64\<close>: \<open>size / 8\<close> words, \<open>*dd++ = *ss++\<close> each (\<open>sz\<close> and \<open>count\<close> are the
  source's \<open>size\<close> before and after the division).\<close>

fun memcpy_uint64_loop :: "mem \<Rightarrow> addr \<Rightarrow> addr \<Rightarrow> nat \<Rightarrow> mem" where
  "memcpy_uint64_loop m dd ss 0 = m"
| "memcpy_uint64_loop m dd ss (Suc count) =
     memcpy_uint64_loop (store_word m dd 8 (load_word m ss 8 :: 64 word)) (dd + 8) (ss + 8) count"

definition memcpy_uint64 :: "mem \<Rightarrow> addr \<Rightarrow> addr \<Rightarrow> nat \<Rightarrow> mem" where
  "memcpy_uint64 m dst src sz = memcpy_uint64_loop m dst src (sz * 1 div 8)"

text \<open>\<open>memcpy_uint32\<close>: the same with four-byte words.\<close>

fun memcpy_uint32_loop :: "mem \<Rightarrow> addr \<Rightarrow> addr \<Rightarrow> nat \<Rightarrow> mem" where
  "memcpy_uint32_loop m dd ss 0 = m"
| "memcpy_uint32_loop m dd ss (Suc count) =
     memcpy_uint32_loop (store_word m dd 4 (load_word m ss 4 :: 32 word)) (dd + 4) (ss + 4) count"

definition memcpy_uint32 :: "mem \<Rightarrow> addr \<Rightarrow> addr \<Rightarrow> nat \<Rightarrow> mem" where
  "memcpy_uint32 m dst src sz = memcpy_uint32_loop m dst src (sz * 1 div 4)"

text \<open>
  The two library copies. \<open>std::copy_n(first, n, result)\<close> assigns one byte after the
  other, front to back. \<open>std::memcpy\<close> is specified for buffers that do not overlap, where
  it leaves the \<open>n\<close> destination bytes equal to the source bytes as they were.
\<close>

fun std_copy_n :: "mem \<Rightarrow> addr \<Rightarrow> nat \<Rightarrow> addr \<Rightarrow> mem" where
  "std_copy_n m first 0 result = m"
| "std_copy_n m first (Suc n) result = std_copy_n (m(result := m first)) (Suc first) n (Suc result)"

definition std_memcpy :: "mem \<Rightarrow> addr \<Rightarrow> addr \<Rightarrow> nat \<Rightarrow> mem" where
  "std_memcpy m dst src n = (\<lambda>x. if dst \<le> x \<and> x < dst + n then m (src + (x - dst)) else m x)"

text \<open>\<open>MemcpyFunc\<close>: the three functions \<open>memcpy_func\<close> can hold, and calling one.\<close>

datatype MemcpyFunc = Std_memcpy | Memcpy_uint64 | Memcpy_uint32

fun call_memcpy :: "MemcpyFunc \<Rightarrow> mem \<Rightarrow> addr \<Rightarrow> addr \<Rightarrow> nat \<Rightarrow> mem" where
  "call_memcpy Std_memcpy m dst src n = std_memcpy m dst src n"
| "call_memcpy Memcpy_uint64 m dst src n = memcpy_uint64 m dst src n"
| "call_memcpy Memcpy_uint32 m dst src n = memcpy_uint32 m dst src n"

definition IS_4BYTE_ALIGNED :: "addr \<Rightarrow> bool" where
  "IS_4BYTE_ALIGNED ptr = (ptr mod 4 = 0)"

definition IS_8BYTE_ALIGNED :: "addr \<Rightarrow> bool" where
  "IS_8BYTE_ALIGNED ptr = (ptr mod 8 = 0)"

text \<open>
  The thread pool. \<open>ParallelFor(total, cost, fn)\<close> of the TensorFlow library cuts
  \<open>[0, total)\<close> into shards and calls \<open>fn(begin, end)\<close> for each on some thread. The
  slices \<open>fast_memcpy\<close> hands out write bytes of their own and read only source bytes, so
  a run is described by the shards in the order their copies take effect: a pool is that
  list, and \<open>nullptr\<close> is \<open>None\<close>. \<open>shards_cover\<close> says that the shards are those of
  \<open>[0, total)\<close>.
\<close>

type_synonym thread_pool = "(nat \<times> nat) list"

definition ParallelFor :: "thread_pool \<Rightarrow> (nat \<Rightarrow> nat \<Rightarrow> mem \<Rightarrow> mem) \<Rightarrow> mem \<Rightarrow> mem" where
  "ParallelFor shards fn m = foldl (\<lambda>m' (begin_idx, end_idx). fn begin_idx end_idx m') m shards"

definition shards_cover :: "thread_pool \<Rightarrow> nat \<Rightarrow> bool" where
  "shards_cover shards n =
     ((\<forall>(b, e) \<in> set shards. e \<le> n) \<and> (\<forall>idx < n. \<exists>(b, e) \<in> set shards. b \<le> idx \<and> idx < e))"

text \<open>The lambda \<open>memcpy_shard\<close> of \<open>fast_memcpy\<close>.\<close>

definition memcpy_shard ::
  "addr \<Rightarrow> addr \<Rightarrow> int \<Rightarrow> MemcpyFunc list \<Rightarrow> int list \<Rightarrow> nat \<Rightarrow> nat \<Rightarrow> mem \<Rightarrow> mem"
where
  "memcpy_shard char_dst char_src slice_size vec_memcpy_func vec_slice_size begin_idx end_idx m =
     foldl (\<lambda>m' idx.
              let offset = nat (int idx * slice_size) in
                call_memcpy (vec_memcpy_func ! idx) m' (char_dst + offset) (char_src + offset)
                  (nat (vec_slice_size ! idx)))
       m [begin_idx ..< end_idx]"

text \<open>\<open>fast_memcpy\<close>. \<open>total_size\<close> is an \<open>int64\<close>; a size handed to a copy is converted to
  \<open>size_t\<close>.\<close>

definition fast_memcpy :: "thread_pool option \<Rightarrow> mem \<Rightarrow> addr \<Rightarrow> addr \<Rightarrow> int \<Rightarrow> mem" where
  "fast_memcpy thread_pool m char_dst char_src total_size =
     (if total_size < 1024 then std_copy_n m char_src (nat total_size) char_dst
      else if total_size \<le> 1024 * 1024 * 4 \<or> thread_pool = None
      then
        (let (copy_size, memcpy_func) =
               (if IS_8BYTE_ALIGNED char_src \<and> IS_8BYTE_ALIGNED char_dst
                then (total_size div 8 * 8, Memcpy_uint64)
                else if IS_4BYTE_ALIGNED char_src \<and> IS_4BYTE_ALIGNED char_dst
                then (total_size div 4 * 4, Memcpy_uint32)
                else (total_size, Std_memcpy));
             m1 = call_memcpy memcpy_func m char_dst char_src (nat copy_size)
         in if copy_size \<noteq> total_size
            then std_memcpy m1 (char_dst + nat copy_size) (char_src + nat copy_size)
                   (nat (total_size - copy_size))
            else m1)
      else
        (let (alignment, memcpy_func) =
               (if IS_8BYTE_ALIGNED char_src \<and> IS_8BYTE_ALIGNED char_dst
                then (8, Memcpy_uint64)
                else if IS_4BYTE_ALIGNED char_src \<and> IS_4BYTE_ALIGNED char_dst
                then (4, Memcpy_uint32)
                else (1, Std_memcpy));
             num_parallel = 8;
             slice_size = total_size div num_parallel;
             slice_size = slice_size - slice_size mod alignment;
             last_slice_size = total_size - slice_size * (num_parallel - 1);
             vec_slice_size = (replicate (nat num_parallel) slice_size)
                                [nat (num_parallel - 1) := last_slice_size];
             vec_memcpy_func = (replicate (nat num_parallel) memcpy_func);
             vec_memcpy_func = (if last_slice_size mod alignment \<noteq> 0
                                then vec_memcpy_func[nat (num_parallel - 1) := Std_memcpy]
                                else vec_memcpy_func)
         in ParallelFor (the thread_pool)
              (memcpy_shard char_dst char_src slice_size vec_memcpy_func vec_slice_size) m))"

text \<open>
  The claim's yardstick, in the spec's words: a plain byte-for-byte copy of \<open>n\<close> bytes,
  and the set of destination addresses it may touch.
\<close>

fun plain_copy :: "mem \<Rightarrow> addr \<Rightarrow> addr \<Rightarrow> nat \<Rightarrow> mem" where
  "plain_copy m dst src 0 = m"
| "plain_copy m dst src (Suc n) = plain_copy (m(dst := m src)) (Suc dst) (Suc src) n"

definition no_overlap :: "addr \<Rightarrow> addr \<Rightarrow> nat \<Rightarrow> bool" where
  "no_overlap dst src n = (dst + n \<le> src \<or> src + n \<le> dst)"

text \<open>A store in which the destination bytes at the offsets in \<open>A\<close> have been copied from
  the source, and nothing else has changed.\<close>

definition copied_on :: "mem \<Rightarrow> addr \<Rightarrow> addr \<Rightarrow> nat set \<Rightarrow> mem" where
  "copied_on m dst src A = (\<lambda>x. if dst \<le> x \<and> x - dst \<in> A then m (src + (x - dst)) else m x)"

text \<open>
  Vocabulary of the statements about \<open>fast_memcpy\<close>: the width in bytes of what a
  \<open>MemcpyFunc\<close> moves at a time, and the offsets slice \<open>idx\<close> of the parallel branch
  covers, where \<open>S\<close> is \<open>slice_size\<close> and \<open>L\<close> is \<open>last_slice_size\<close>.
\<close>

definition word_bytes :: "MemcpyFunc \<Rightarrow> nat" where
  "word_bytes f = (case f of Std_memcpy \<Rightarrow> 1 | Memcpy_uint64 \<Rightarrow> 8 | Memcpy_uint32 \<Rightarrow> 4)"

definition slice_region :: "nat \<Rightarrow> nat \<Rightarrow> nat \<Rightarrow> nat set" where
  "slice_region S L idx = {idx * S ..< idx * S + (if idx = 7 then L else S)}"

subsection \<open>tensor\_memcpy\<close>

text \<open>
  \<open>DataType\<close> and \<open>DataTypeCanUseMemcpy\<close> are TensorFlow's: the types whose tensors are
  plain bytes are the numeric, boolean and quantised ones.
\<close>

datatype DataType =
    DT_INVALID | DT_FLOAT | DT_DOUBLE | DT_INT32 | DT_UINT8 | DT_INT16 | DT_INT8 | DT_STRING
  | DT_COMPLEX64 | DT_INT64 | DT_BOOL | DT_QINT8 | DT_QUINT8 | DT_QINT32 | DT_BFLOAT16
  | DT_QINT16 | DT_QUINT16 | DT_UINT16 | DT_COMPLEX128 | DT_HALF | DT_RESOURCE | DT_VARIANT
  | DT_UINT32 | DT_UINT64

fun DataTypeCanUseMemcpy :: "DataType \<Rightarrow> bool" where
  "DataTypeCanUseMemcpy DT_INVALID = False"
| "DataTypeCanUseMemcpy DT_STRING = False"
| "DataTypeCanUseMemcpy DT_RESOURCE = False"
| "DataTypeCanUseMemcpy DT_VARIANT = False"
| "DataTypeCanUseMemcpy _ = True"

text \<open>A tensor is its data type and its buffer (\<open>tensor_data()\<close>); a \<open>StringPiece\<close> is a
  pointer and a length.\<close>

record Tensor =
  dtype :: DataType
  tensor_data :: addr
  tensor_size :: nat

record StringPiece =
  sp_data :: addr
  sp_size :: nat

text \<open>
  The sizes of a buffer are \<open>size_t\<close>, 64 bits without sign. \<open>tensor_memcpy\<close> converts them
  to \<open>int64\<close>, the tensor's by the declaration of \<open>dst_size\<close> and the source's by a cast: the
  same 64 bits read with a sign, so that a size from \<open>2^63\<close> on becomes negative.
\<close>

definition to_int64 :: "nat \<Rightarrow> int" where
  "to_int64 n = sint (word_of_nat n :: 64 word)"

text \<open>
  \<open>tensor_memcpy\<close>. The requested size is an \<open>int64\<close>, a 64-bit word read with \<open>sint\<close>;
  \<open>memcpy_size'\<close> is the variable \<open>memcpy_size\<close> after the default has been applied. The
  messages leave out the data type and the sizes that the code prints into them.
\<close>

definition tensor_memcpy ::
  "thread_pool option \<Rightarrow> mem \<Rightarrow> Tensor \<Rightarrow> StringPiece \<Rightarrow> 64 word \<Rightarrow> status \<times> mem"
where
  "tensor_memcpy thread_pool m tensor source memcpy_size =
     (if \<not> DataTypeCanUseMemcpy (dtype tensor)
      then (Error UNIMPLEMENTED ''tensor_memcpy on data type is not allowed'' None, m)
      else
        let dst_size = to_int64 (tensor_size tensor);
            memcpy_size' = (if sint memcpy_size < 0 then dst_size else sint memcpy_size)
        in
          if memcpy_size' > to_int64 (sp_size source) \<or> memcpy_size' > dst_size
          then (Error OUT_OF_RANGE ''unexpected tensor size in tensor_memcpy'' None, m)
          else (OK, fast_memcpy thread_pool m (tensor_data tensor) (sp_data source) memcpy_size'))"

text \<open>The slice size the parallel branch of \<open>fast_memcpy\<close> computes for an alignment,
  the effective size of a copy in the spec's words (a negative request means the
  destination's byte size), and the code of a status.\<close>

definition fast_memcpy_slice_size :: "int \<Rightarrow> int \<Rightarrow> int" where
  "fast_memcpy_slice_size total_size alignment =
     total_size div 8 - (total_size div 8) mod alignment"


fun status_code :: "status \<Rightarrow> error_code option" where
  "status_code OK = None"
| "status_code (Error c msg detail) = Some c"

section \<open>SharedMemoryManager\<close>

text \<open>
  The manager keeps, per direction, the names of the shared-memory objects it created,
  the addresses and sizes of the regions it mapped, and the names it registered with the
  daemon.
\<close>

record SharedMemoryManager =
  enabled :: bool
  input_names :: "string list"
  input_ptrs :: "addr list"
  input_sizes :: "nat list"
  input_grpc_names :: "string list"
  output_names :: "string list"
  output_ptrs :: "addr list"
  output_sizes :: "nat list"
  output_grpc_names :: "string list"

text \<open>The system calls and RPCs on shared memory, in the order they are issued.\<close>

datatype shm_event =
    ShmOpen string
  | Ftruncate string nat
  | Mmap string nat
  | ShmMapRPC string
  | ShmUnmapRPC string
  | Munmap addr nat
  | ShmUnlink string

text \<open>
  What the host answers to one round of \<open>init_vectors\<close>: the name \<open>gen_shm_name\<close>
  returns (empty when no unique name was found), what \<open>shm_open\<close> and \<open>ftruncate\<close>
  return, the pointer \<open>mmap\<close> returns (0 is \<open>nullptr\<close>), and the daemon's reply to
  \<open>shm_map\<close>.
\<close>

record shm_step_env =
  gen_shm_name :: string
  shm_open_fd :: int
  ftruncate_ret :: int
  mmap_ptr :: addr
  shm_map_reply :: rpc_reply

text \<open>
  Modelled from the spec: the macros \<open>SYS_FAIL_RETURN\<close> and \<open>SYS_FAIL_LOG\<close> of the
  missing header. An operating-system failure is fatal during setup (an internal error
  is returned at once) and is logged and swallowed during teardown.
\<close>

definition sys_fail_status :: "string \<Rightarrow> status" where
  "sys_fail_status fn_name = Error INTERNAL (fn_name @ '' failed'') None"

type_synonym shm_vectors = "string list \<times> addr list \<times> nat list \<times> string list"

text \<open>
  \<open>init_vectors\<close>: one round per requested size; \<open>env k\<close> is the host's answer in round
  \<open>k\<close>. The vectors are \<open>names\<close>, \<open>ptrs\<close>, \<open>sizes\<close> and \<open>grpc_names\<close>.
\<close>

fun init_vectors ::
  "(nat \<Rightarrow> shm_step_env) \<Rightarrow> nat \<Rightarrow> shm_vectors \<Rightarrow> nat list \<Rightarrow> status \<times> shm_vectors \<times> shm_event list"
where
  "init_vectors env k v [] = (OK, v, [])"
| "init_vectors env k (names, ptrs, sizes, grpc_names) (sz # tensor_sizes) =
     (let name = gen_shm_name (env k) in
        if name = []
        then (Error INTERNAL ''cannot generate unique file name for shared memory'' None,
              (names, ptrs, sizes, grpc_names), [])
        else if shm_open_fd (env k) < 0
        then (sys_fail_status ''shm_open'', (names, ptrs, sizes, grpc_names), [ShmOpen name])
        else if ftruncate_ret (env k) < 0
        then (sys_fail_status ''ftruncate'', (names @ [name], ptrs, sizes, grpc_names),
              [ShmOpen name, Ftruncate name sz])
        else if 0 = mmap_ptr (env k)
        then (sys_fail_status ''mmap'', (names @ [name], ptrs, sizes, grpc_names),
              [ShmOpen name, Ftruncate name sz, Mmap name sz])
        else if \<not> nrt_ok (shm_map_reply (env k))
        then (nrt_error_status ''shm_map'' (shm_map_reply (env k)),
              (names @ [name], ptrs @ [mmap_ptr (env k)], sizes @ [sz], grpc_names),
              [ShmOpen name, Ftruncate name sz, Mmap name sz, ShmMapRPC name])
        else
          (case init_vectors env (Suc k)
                  (names @ [name], ptrs @ [mmap_ptr (env k)], sizes @ [sz], grpc_names @ [name])
                  tensor_sizes of
             (st, v', t) \<Rightarrow>
               (st, v', [ShmOpen name, Ftruncate name sz, Mmap name sz, ShmMapRPC name] @ t)))"

text \<open>\<open>SharedMemoryManager::initialize\<close>; the inputs' rounds and the outputs' rounds have
  their own answers.\<close>

definition SharedMemoryManager_initialize ::
  "stub_result \<Rightarrow> (nat \<Rightarrow> shm_step_env) \<Rightarrow> (nat \<Rightarrow> shm_step_env) \<Rightarrow> SharedMemoryManager
     \<Rightarrow> nat list \<Rightarrow> nat list \<Rightarrow> status \<times> SharedMemoryManager \<times> shm_event list"
where
  "SharedMemoryManager_initialize stub in_env out_env s input_tensor_sizes output_tensor_sizes =
     (if init_stub stub \<noteq> OK then (init_stub stub, s, [])
      else
        (case init_vectors in_env 0
                (input_names s, input_ptrs s, input_sizes s, input_grpc_names s)
                input_tensor_sizes of
           (st, (names, ptrs, sizes, grpc_names), t) \<Rightarrow>
             let s1 = s\<lparr>input_names := names, input_ptrs := ptrs, input_sizes := sizes,
                        input_grpc_names := grpc_names\<rparr>
             in
               if st \<noteq> OK then (st, s1, t)
               else
                 (case init_vectors out_env 0
                         (output_names s1, output_ptrs s1, output_sizes s1, output_grpc_names s1)
                         output_tensor_sizes of
                    (st', (names', ptrs', sizes', grpc_names'), t') \<Rightarrow>
                      let s2 = s1\<lparr>output_names := names', output_ptrs := ptrs',
                                  output_sizes := sizes', output_grpc_names := grpc_names'\<rparr>
                      in
                        if st' \<noteq> OK then (st', s2, t @ t')
                        else (OK, s2\<lparr>enabled := True\<rparr>, t @ t'))))"

text \<open>
  Teardown. Each step is carried out and, if it fails, logged; nothing returns early.
  \<open>fails\<close> says which steps fail. A log is the steps carried out so far and the failures
  logged so far.
\<close>

type_synonym teardown_log = "shm_event list \<times> shm_event list"

definition log_step :: "(shm_event \<Rightarrow> bool) \<Rightarrow> shm_event \<Rightarrow> teardown_log \<Rightarrow> teardown_log" where
  "log_step fails ev l = (fst l @ [ev], if fails ev then snd l @ [ev] else snd l)"

definition nrt_shm_unmap :: "(shm_event \<Rightarrow> bool) \<Rightarrow> string \<Rightarrow> teardown_log \<Rightarrow> teardown_log" where
  "nrt_shm_unmap fails name l = log_step fails (ShmUnmapRPC name) l"

text \<open>\<open>SharedMemoryManager::~SharedMemoryManager\<close>: six loops, the inputs' three first.\<close>

definition SharedMemoryManager_destructor ::
  "(shm_event \<Rightarrow> bool) \<Rightarrow> SharedMemoryManager \<Rightarrow> SharedMemoryManager \<times> teardown_log"
where
  "SharedMemoryManager_destructor fails s =
     (let l1 = foldl (\<lambda>l name. nrt_shm_unmap fails name l) ([], []) (input_grpc_names s);
          s1 = s\<lparr>input_grpc_names := []\<rparr>;
          l2 = foldl (\<lambda>l idx. log_step fails (Munmap (input_ptrs s1 ! idx) (input_sizes s1 ! idx)) l)
                 l1 [0 ..< length (input_ptrs s1)];
          s2 = s1\<lparr>input_ptrs := []\<rparr>;
          l3 = foldl (\<lambda>l name. log_step fails (ShmUnlink name) l) l2 (input_names s2);
          s3 = s2\<lparr>input_names := []\<rparr>;
          l4 = foldl (\<lambda>l name. nrt_shm_unmap fails name l) l3 (output_grpc_names s3);
          s4 = s3\<lparr>output_grpc_names := []\<rparr>;
          l5 = foldl (\<lambda>l idx. log_step fails (Munmap (output_ptrs s4 ! idx) (output_sizes s4 ! idx)) l)
                 l4 [0 ..< length (output_ptrs s4)];
          s5 = s4\<lparr>output_ptrs := []\<rparr>;
          l6 = foldl (\<lambda>l name. log_step fails (ShmUnlink name) l) l5 (output_names s5);
          s6 = s5\<lparr>output_names := []\<rparr>
      in (s6, l6))"

text \<open>
  The steps of one phase of teardown for one direction, and the order the spec gives:
  three phases over both directions, the outputs before the inputs in each.
\<close>

definition unregister_steps :: "string list \<Rightarrow> shm_event list" where
  "unregister_steps grpc_names = map ShmUnmapRPC grpc_names"

definition munmap_steps :: "addr list \<Rightarrow> nat list \<Rightarrow> shm_event list" where
  "munmap_steps ptrs sizes = map (\<lambda>idx. Munmap (ptrs ! idx) (sizes ! idx)) [0 ..< length ptrs]"

definition unlink_steps :: "string list \<Rightarrow> shm_event list" where
  "unlink_steps names = map ShmUnlink names"

definition spec_teardown_order :: "SharedMemoryManager \<Rightarrow> shm_event list" where
  "spec_teardown_order s =
     unregister_steps (output_grpc_names s) @ unregister_steps (input_grpc_names s)
     @ munmap_steps (output_ptrs s) (output_sizes s) @ munmap_steps (input_ptrs s) (input_sizes s)
     @ unlink_steps (output_names s) @ unlink_steps (input_names s)"

text \<open>What \<open>init_vectors\<close> keeps true of the four vectors of a direction: they describe the
  same buffers, and a buffer is registered only once it is mapped, and mapped only once
  it is created.\<close>

definition vectors_parallel :: "shm_vectors \<Rightarrow> bool" where
  "vectors_parallel v =
     (case v of
        (names, ptrs, sizes, grpc_names) \<Rightarrow>
          length sizes = length ptrs \<and> length grpc_names \<le> length ptrs
          \<and> length ptrs \<le> length names \<and> grpc_names = take (length grpc_names) names)"

text \<open>A manager that holds one input and one output buffer.\<close>

definition example_shm :: SharedMemoryManager where
  "example_shm =
     \<lparr>enabled = True,
      input_names = [''/in''], input_ptrs = [100], input_sizes = [4], input_grpc_names = [''/in''],
      output_names = [''/out''], output_ptrs = [200], output_sizes = [4],
      output_grpc_names = [''/out'']\<rparr>"

text \<open>The order the destructor has: all three loops of the inputs, then those of the outputs.\<close>

definition code_teardown_order :: "SharedMemoryManager \<Rightarrow> shm_event list" where
  "code_teardown_order s =
     unregister_steps (input_grpc_names s) @ munmap_steps (input_ptrs s) (input_sizes s)
     @ unlink_steps (input_names s)
     @ unregister_steps (output_grpc_names s) @ munmap_steps (output_ptrs s) (output_sizes s)
     @ unlink_steps (output_names s)"

section \<open>Loading an executable\<close>

text \<open>
  Modelled from the spec: the class \<open>nrt::load_request\<close> is generated from a protocol
  file that is not among the sources. The spec has one message per item (the handle, the
  byte count, the parameters, a chunk). The code reuses one request object for every
  write, so what a message carries besides the item set last depends on whether setting
  one item clears the others; that is the parameter \<open>oneof\<close> of the setters.
\<close>

record load_request =
  req_h_eg :: "u32 option"
  req_neff_size :: "nat option"
  req_model_params :: "(u32 \<times> u32) option"
  req_neff_chunk :: "8 word list option"

definition empty_load_request :: load_request where
  "empty_load_request =
     \<lparr>req_h_eg = None, req_neff_size = None, req_model_params = None, req_neff_chunk = None\<rparr>"

definition set_h_eg :: "bool \<Rightarrow> u32 \<Rightarrow> load_request \<Rightarrow> load_request" where
  "set_h_eg oneof v request =
     (if oneof then empty_load_request else request)\<lparr>req_h_eg := Some v\<rparr>"

definition set_neff_size :: "bool \<Rightarrow> nat \<Rightarrow> load_request \<Rightarrow> load_request" where
  "set_neff_size oneof v request =
     (if oneof then empty_load_request else request)\<lparr>req_neff_size := Some v\<rparr>"

definition set_model_params :: "bool \<Rightarrow> u32 \<Rightarrow> u32 \<Rightarrow> load_request \<Rightarrow> load_request" where
  "set_model_params oneof timeout ninfer request =
     (if oneof then empty_load_request else request)\<lparr>req_model_params := Some (timeout, ninfer)\<rparr>"

definition set_neff_chunk :: "bool \<Rightarrow> 8 word list \<Rightarrow> load_request \<Rightarrow> load_request" where
  "set_neff_chunk oneof v request =
     (if oneof then empty_load_request else request)\<lparr>req_neff_chunk := Some v\<rparr>"

text \<open>What happens on the stream of one \<open>load\<close> call, in order.\<close>

datatype stream_event = Write load_request | WritesDone | Finish

record load_response = rpc_reply +
  h_nn :: u32

text \<open>
  What the stream answers: whether the write number \<open>k\<close> of the call (counted from 0)
  succeeds, whether \<open>WritesDone\<close> succeeds, and the status and response of \<open>Finish\<close>.
\<close>

record load_env =
  oneof_data :: bool
  write_ok :: "nat \<Rightarrow> bool"
  writes_done_ok :: bool
  finish_reply :: load_response

text \<open>The writer: the number of writes attempted so far, and the events so far.\<close>

type_synonym writer = "nat \<times> stream_event list"

definition writer_Write :: "load_env \<Rightarrow> load_request \<Rightarrow> writer \<Rightarrow> bool \<times> writer" where
  "writer_Write env request w = (write_ok env (fst w), (Suc (fst w), snd w @ [Write request]))"

definition broken_stream :: status where
  "broken_stream = Error INTERNAL ''neuron-rtd load failure - broken stream'' None"

text \<open>
  The loop over the executable. The sizes are \<open>size_t\<close>; a \<open>StringPiece\<close> in memory is
  too short for \<open>pos + EXEC_MAX_CHUNK_SIZE\<close> to wrap, so they are natural numbers here.
  The loop ends when the chunk size is positive or a write fails; the model does not
  assume that it ends.
\<close>

partial_function (option) load_chunks ::
  "nrt_consts \<Rightarrow> load_env \<Rightarrow> 8 word list \<Rightarrow> nat \<Rightarrow> load_request \<Rightarrow> writer \<Rightarrow> (bool \<times> writer) option"
where
  "load_chunks K env executable pos request w =
     (if pos < length executable
      then
        (let remaining = length executable - pos;
             chunk_size = min remaining (EXEC_MAX_CHUNK_SIZE K);
             file_chunk = take chunk_size (drop pos executable);
             request' = set_neff_chunk (oneof_data env) file_chunk request
         in
           if \<not> fst (writer_Write env request' w) then Some (False, snd (writer_Write env request' w))
           else load_chunks K env executable (pos + EXEC_MAX_CHUNK_SIZE K) request'
                  (snd (writer_Write env request' w)))
      else Some (True, w))"

text \<open>
  The body that \<open>NeuronDevice::load\<close> and \<open>RuntimeGRPC::load\<close> have in common, up to the
  check of the response. The result is the status, the response's model id if the call
  got that far, and the events on the stream; \<open>None\<close> if the loop does not end.
\<close>

definition load_stream ::
  "nrt_consts \<Rightarrow> load_env \<Rightarrow> u32 \<Rightarrow> 8 word list \<Rightarrow> u32 \<Rightarrow> u32
     \<Rightarrow> (status \<times> u32 option \<times> stream_event list) option"
where
  "load_stream K env eg executable timeout ninfer =
     (let request1 = set_h_eg (oneof_data env) eg empty_load_request;
          w1 = writer_Write env request1 (0, [])
      in
        if \<not> fst w1 then Some (broken_stream, None, snd (snd w1))
        else
          let exec_total_size = length executable;
              request2 = set_neff_size (oneof_data env) exec_total_size request1;
              w2 = writer_Write env request2 (snd w1)
          in
            if \<not> fst w2 then Some (broken_stream, None, snd (snd w2))
            else
              let request3 = set_model_params (oneof_data env) timeout ninfer request2;
                  w3 = writer_Write env request3 (snd w2)
              in
                if \<not> fst w3 then Some (broken_stream, None, snd (snd w3))
                else
                  (case load_chunks K env executable 0 request3 (snd w3) of
                     None \<Rightarrow> None
                   | Some (ok, w4) \<Rightarrow>
                       if \<not> ok then Some (broken_stream, None, snd w4)
                       else if \<not> writes_done_ok env
                       then Some (broken_stream, None, snd w4 @ [WritesDone])
                       else if \<not> nrt_ok (finish_reply env)
                       then Some (nrt_error_status ''load'' (finish_reply env), None,
                                  snd w4 @ [WritesDone, Finish])
                       else Some (OK, Some (h_nn (finish_reply env)),
                                  snd w4 @ [WritesDone, Finish])))"

text \<open>
  \<open>RuntimeGRPC::load\<close>: \<open>*nn_id\<close> is written only on the last line, so the result has
  the id only when the status is OK.
\<close>

definition RuntimeGRPC_load ::
  "nrt_consts \<Rightarrow> load_env \<Rightarrow> u32 \<Rightarrow> 8 word list \<Rightarrow> u32 \<Rightarrow> u32
     \<Rightarrow> (status \<times> u32 option \<times> stream_event list) option"
where
  "RuntimeGRPC_load K env eg executable timeout ninfer =
     load_stream K env eg executable timeout ninfer"

text \<open>\<open>NeuronDevice::load\<close>: the same on the device's own group, and the new id joins
  \<open>nn_id_set_\<close>.\<close>

definition NeuronDevice_load ::
  "nrt_consts \<Rightarrow> load_env \<Rightarrow> NeuronDevice \<Rightarrow> 8 word list \<Rightarrow> u32 \<Rightarrow> u32
     \<Rightarrow> (status \<times> u32 option \<times> NeuronDevice \<times> stream_event list) option"
where
  "NeuronDevice_load K env d executable timeout ninfer =
     (case load_stream K env (eg_id d) executable timeout ninfer of
        None \<Rightarrow> None
      | Some (st, nn_id, t) \<Rightarrow>
          (case nn_id of
             None \<Rightarrow> Some (st, None, d, t)
           | Some i \<Rightarrow> Some (st, Some i, d\<lparr>nn_id_set := insert i (nn_id_set d)\<rparr>, t)))"

subsection \<open>The streaming order in the spec's words\<close>

text \<open>The executable cut into chunks of the fixed size, the last one possibly shorter.\<close>

function chunks_of :: "nat \<Rightarrow> 'a list \<Rightarrow> 'a list list" where
  "chunks_of cs xs = (if cs = 0 \<or> xs = [] then [] else take cs xs # chunks_of cs (drop cs xs))"
  by pat_completeness auto
termination
  by (relation "measure (\<lambda>(cs, xs). length xs)") auto

declare chunks_of.simps [simp del]

text \<open>The messages of a complete stream: the handle, the byte count, the parameters, and
  one message per chunk.\<close>

definition load_messages ::
  "bool \<Rightarrow> nat \<Rightarrow> u32 \<Rightarrow> 8 word list \<Rightarrow> u32 \<Rightarrow> u32 \<Rightarrow> load_request list"
where
  "load_messages oneof cs eg executable timeout ninfer =
     (let m1 = set_h_eg oneof eg empty_load_request;
          m2 = set_neff_size oneof (length executable) m1;
          m3 = set_model_params oneof timeout ninfer m2
      in [m1, m2, m3] @ map (\<lambda>c. set_neff_chunk oneof c m3) (chunks_of cs executable))"

text \<open>The messages that are written when write number \<open>k\<close> is the next one: all of them,
  or those up to and including the first whose write fails.\<close>

fun written :: "(nat \<Rightarrow> bool) \<Rightarrow> nat \<Rightarrow> 'a list \<Rightarrow> 'a list \<times> bool" where
  "written ok k [] = ([], True)"
| "written ok k (m # ms) =
     (if ok k then (m # fst (written ok (Suc k) ms), snd (written ok (Suc k) ms))
      else ([m], False))"

text \<open>What the spec says a load does.\<close>

definition spec_load ::
  "nrt_consts \<Rightarrow> load_env \<Rightarrow> NeuronDevice \<Rightarrow> 8 word list \<Rightarrow> u32 \<Rightarrow> u32
     \<Rightarrow> status \<times> u32 option \<times> NeuronDevice \<times> stream_event list"
where
  "spec_load K env d executable timeout ninfer =
     (let msgs = load_messages (oneof_data env) (EXEC_MAX_CHUNK_SIZE K) (eg_id d) executable
                   timeout ninfer;
          ws = written (write_ok env) 0 msgs
      in
        if \<not> snd ws then (broken_stream, None, d, map Write (fst ws))
        else if \<not> writes_done_ok env then (broken_stream, None, d, map Write msgs @ [WritesDone])
        else if \<not> nrt_ok (finish_reply env)
        then (nrt_error_status ''load'' (finish_reply env), None, d,
              map Write msgs @ [WritesDone, Finish])
        else (OK, Some (h_nn (finish_reply env)),
              d\<lparr>nn_id_set := insert (h_nn (finish_reply env)) (nn_id_set d)\<rparr>,
              map Write msgs @ [WritesDone, Finish]))"

section \<open>Inference\<close>

text \<open>
  Modelled from the spec: the messages of the inference RPCs are generated from the
  protocol file that is not among the sources. An entry of a request has a name and
  either the bytes themselves or the path of a shared-memory object; an entry of a
  response is read through \<open>name()\<close> and \<open>buf()\<close> only.
\<close>

datatype io_payload = Buf "byte list" | BufShm string

type_synonym infer_io = "string \<times> io_payload"

record infer_request =
  ifmap :: "infer_io list"
  shm_ofmap :: "infer_io list"
  infer_h_nn :: u32

record infer_response = rpc_reply +
  ofmap :: "(string \<times> byte list) list"

text \<open>
  A call returns a status, or leaves through the exception of \<open>std::vector::at\<close>, or
  indexes a vector with \<open>[]\<close> beyond its end, after which nothing is defined.
\<close>

datatype outcome = Returned status | Throws_out_of_range | Undefined_behaviour

definition read_bytes :: "mem \<Rightarrow> addr \<Rightarrow> nat \<Rightarrow> byte list" where
  "read_bytes m a n = map (\<lambda>k. m (a + k)) [0..<n]"

text \<open>The block \<open>if (status.ok()) { ... }\<close> after the RPC, the same in all four functions.\<close>

definition ignore_num_err :: "infer_response \<Rightarrow> infer_response" where
  "ignore_num_err response =
     (if grpc response = GRPC_OK
      then (if NERR_INFER_COMPLETED_WITH_NUM_ERR = code response
            then response\<lparr>code := NERR_OK\<rparr> else response)
      else response)"

text \<open>
  \<open>TF_RETURN_WITH_CONTEXT_IF_ERROR\<close> is TensorFlow's: it appends a line break, a tab and
  the context to the message of a failed status.
\<close>

definition append_to_message :: "status \<Rightarrow> string \<Rightarrow> status" where
  "append_to_message st ctx =
     (case st of
        OK \<Rightarrow> OK
      | Error c msg detail \<Rightarrow> Error c (msg @ [CHR 0x0A, CHR 0x09] @ ctx) detail)"

text \<open>
  \<open>copy_output_tensors\<close> (the member of \<open>NeuronDevice\<close> and the free function of the
  other file are the same text). The \<open>tensor_memcpy\<close> it calls takes a tensor and a
  source only; it is not the function of \<open>tensor_util.cc\<close> and is not among the sources,
  so the copy is a parameter.
\<close>

type_synonym tensor_copy = "mem \<Rightarrow> Tensor \<Rightarrow> byte list \<Rightarrow> status \<times> mem"

fun raw_outputs_loop ::
  "(string \<Rightarrow> byte list option) \<Rightarrow> string list \<Rightarrow> byte list list \<Rightarrow> status \<times> byte list list"
where
  "raw_outputs_loop map_name_raw [] raw_output_tensors = (OK, raw_output_tensors)"
| "raw_outputs_loop map_name_raw (name # names) raw_output_tensors =
     (case map_name_raw name of
        None \<Rightarrow>
          (Error INTERNAL (''tensor name'' @ name @ '' not found in infer_response.ofmap()'') None,
           raw_output_tensors)
      | Some raw \<Rightarrow> raw_outputs_loop map_name_raw names (raw_output_tensors @ [raw]))"

fun copy_loop ::
  "tensor_copy \<Rightarrow> Tensor list \<Rightarrow> string list \<Rightarrow> byte list list \<Rightarrow> nat \<Rightarrow> mem \<Rightarrow> outcome \<times> mem"
where
  "copy_loop cp output_tensors [] raw_output_tensors idx m = (Returned OK, m)"
| "copy_loop cp output_tensors (name # names) raw_output_tensors idx m =
     (if idx \<ge> length output_tensors then (Throws_out_of_range, m)
      else
        (case cp m (output_tensors ! idx) (raw_output_tensors ! idx) of
           (st, m') \<Rightarrow>
             if st \<noteq> OK
             then (Returned (append_to_message st (''tensor_memcpy failure on tensor name: '' @ name)),
                   m')
             else copy_loop cp output_tensors names raw_output_tensors (Suc idx) m'))"

definition copy_output_tensors ::
  "tensor_copy \<Rightarrow> mem \<Rightarrow> Tensor list \<Rightarrow> infer_response \<Rightarrow> string list \<Rightarrow> outcome \<times> mem"
where
  "copy_output_tensors cp m output_tensors response out_names =
     (let map_name_raw = map_of (ofmap response) in
        (case raw_outputs_loop map_name_raw out_names [] of
           (st, raw_output_tensors) \<Rightarrow>
             if st \<noteq> OK then (Returned st, m)
             else copy_loop cp output_tensors out_names raw_output_tensors 0 m))"

text \<open>
  The loop that fills \<open>ifmap\<close>: round \<open>idx\<close> reads \<open>input_tensors[idx]\<close> and, with shared
  memory, the path and the pointer of the buffer \<open>idx\<close>, into which it copies the
  tensor's bytes. \<open>None\<close> is an index beyond the end of one of the vectors.
\<close>

definition ifmap_step ::
  "bool \<Rightarrow> string list \<Rightarrow> addr list \<Rightarrow> string list \<Rightarrow> Tensor list
     \<Rightarrow> (infer_io list \<times> mem) option \<Rightarrow> nat \<Rightarrow> (infer_io list \<times> mem) option"
where
  "ifmap_step shm_on paths ptrs in_names input_tensors acc idx =
     (case acc of
        None \<Rightarrow> None
      | Some (entries, m) \<Rightarrow>
          if idx \<ge> length input_tensors then None
          else
            let t = input_tensors ! idx in
              if shm_on
              then (if idx \<ge> length paths \<or> idx \<ge> length ptrs then None
                    else Some (entries @ [(in_names ! idx, BufShm (paths ! idx))],
                               std_memcpy m (ptrs ! idx) (tensor_data t) (tensor_size t)))
              else Some (entries @ [(in_names ! idx,
                                     Buf (read_bytes m (tensor_data t) (tensor_size t)))], m))"

definition build_ifmap ::
  "bool \<Rightarrow> string list \<Rightarrow> addr list \<Rightarrow> string list \<Rightarrow> Tensor list \<Rightarrow> mem
     \<Rightarrow> (infer_io list \<times> mem) option"
where
  "build_ifmap shm_on paths ptrs in_names input_tensors m =
     foldl (ifmap_step shm_on paths ptrs in_names input_tensors) (Some ([], m))
       [0 ..< length in_names]"

text \<open>The loop that fills \<open>shm_ofmap\<close>, and the loop that adds the shared-memory outputs
  to the response after the call.\<close>

definition build_shm_ofmap :: "string list \<Rightarrow> string list \<Rightarrow> infer_io list option" where
  "build_shm_ofmap paths out_names =
     (if length paths < length out_names then None
      else Some (map (\<lambda>idx. (out_names ! idx, BufShm (paths ! idx))) [0 ..< length out_names]))"

definition add_shm_ofmap ::
  "mem \<Rightarrow> addr list \<Rightarrow> nat list \<Rightarrow> string list \<Rightarrow> infer_response \<Rightarrow> infer_response option"
where
  "add_shm_ofmap m ptrs sizes out_names response =
     (if length ptrs < length out_names \<or> length sizes < length out_names then None
      else Some (response\<lparr>ofmap := ofmap response
                   @ map (\<lambda>idx. (out_names ! idx, read_bytes m (ptrs ! idx) (sizes ! idx)))
                       [0 ..< length out_names]\<rparr>))"

text \<open>
  What the daemon answers during one inference: to the stop and the start request of
  \<open>start_model\<close>, to the inference itself, and what it leaves in memory (the
  shared-memory outputs) while the call is in flight.
\<close>

record infer_env =
  stop_reply :: rpc_reply
  start_reply :: rpc_reply
  infer_reply :: infer_response
  daemon_writes :: "mem \<Rightarrow> mem"

text \<open>
  \<open>NeuronDevice::infer\<close>. The result is the outcome, the device and the memory
  afterwards, the stop and start requests issued, and the inference request if it was
  sent. The profiler and the timestamps do not influence any of these.
\<close>

definition NeuronDevice_infer ::
  "nrt_consts \<Rightarrow> tensor_copy \<Rightarrow> infer_env \<Rightarrow> NeuronDevice \<Rightarrow> mem \<Rightarrow> Tensor list \<Rightarrow> u32
     \<Rightarrow> string list \<Rightarrow> string list \<Rightarrow> Tensor list \<Rightarrow> SharedMemoryManager
     \<Rightarrow> outcome \<times> NeuronDevice \<times> mem \<times> rpc list \<times> infer_request option"
where
  "NeuronDevice_infer K cp env d m output_tensors nn_id in_names out_names input_tensors shm =
     (case start_model K (stop_reply env) (start_reply env) d nn_id of
        (st, d1, t) \<Rightarrow>
          if st \<noteq> OK then (Returned st, d1, m, t, None)
          else
            (case build_ifmap (enabled shm) (input_names shm) (input_ptrs shm) in_names
                    input_tensors m of
               None \<Rightarrow> (Undefined_behaviour, d1, m, t, None)
             | Some (entries, m1) \<Rightarrow>
                 (case (if enabled shm then build_shm_ofmap (output_names shm) out_names
                        else Some []) of
                    None \<Rightarrow> (Undefined_behaviour, d1, m1, t, None)
                  | Some shm_entries \<Rightarrow>
                      let request = \<lparr>ifmap = entries, shm_ofmap = shm_entries, infer_h_nn = nn_id\<rparr>;
                          m2 = daemon_writes env m1;
                          response = ignore_num_err (infer_reply env)
                      in
                        if \<not> nrt_ok response
                        then (Returned (nrt_error_status ''infer'' response), d1, m2, t, Some request)
                        else
                          (case (if enabled shm
                                 then add_shm_ofmap m2 (output_ptrs shm) (output_sizes shm)
                                        out_names response
                                 else Some response) of
                             None \<Rightarrow> (Undefined_behaviour, d1, m2, t, Some request)
                           | Some response' \<Rightarrow>
                               (case copy_output_tensors cp m2 output_tensors response' out_names of
                                  (out, m3) \<Rightarrow> (out, d1, m3, t, Some request))))))"

text \<open>\<open>NeuronDevice::infer_wait\<close>; \<open>reply\<close> is the daemon's answer to the wait request.\<close>

definition NeuronDevice_infer_wait ::
  "tensor_copy \<Rightarrow> infer_response \<Rightarrow> mem \<Rightarrow> Tensor list \<Rightarrow> 64 word \<Rightarrow> string list
     \<Rightarrow> outcome \<times> mem"
where
  "NeuronDevice_infer_wait cp reply m output_tensors cookie out_names =
     (let response = ignore_num_err reply in
        if \<not> nrt_ok response then (Returned (nrt_error_status ''infer_wait'' response), m)
        else copy_output_tensors cp m output_tensors response out_names)"

text \<open>
  Modelled from the spec: the class \<open>SharedMemory\<close> that \<open>RuntimeGRPC::infer\<close> takes is
  declared in a header that is not among the sources; these are the members the
  function reads.
\<close>

record SharedMemory =
  sm_enabled :: bool
  sm_input_paths :: "string list"
  sm_input_ptrs :: "addr list"
  sm_output_paths :: "string list"
  sm_output_ptrs :: "addr list"
  sm_output_sizes :: "nat list"

text \<open>\<open>RuntimeGRPC::infer\<close>: no \<open>start_model\<close>, and \<open>output_tensors\<close> may be \<open>nullptr\<close>.\<close>

definition RuntimeGRPC_infer ::
  "tensor_copy \<Rightarrow> infer_env \<Rightarrow> mem \<Rightarrow> Tensor list option \<Rightarrow> u32
     \<Rightarrow> string list \<Rightarrow> string list \<Rightarrow> Tensor list \<Rightarrow> SharedMemory
     \<Rightarrow> outcome \<times> mem \<times> infer_request option"
where
  "RuntimeGRPC_infer cp env m output_tensors nn_id in_names out_names input_tensors shm =
     (case build_ifmap (sm_enabled shm) (sm_input_paths shm) (sm_input_ptrs shm) in_names
             input_tensors m of
        None \<Rightarrow> (Undefined_behaviour, m, None)
      | Some (entries, m1) \<Rightarrow>
          (case (if sm_enabled shm then build_shm_ofmap (sm_output_paths shm) out_names
                 else Some []) of
             None \<Rightarrow> (Undefined_behaviour, m1, None)
           | Some shm_entries \<Rightarrow>
               let request = \<lparr>ifmap = entries, shm_ofmap = shm_entries, infer_h_nn = nn_id\<rparr>;
                   m2 = daemon_writes env m1;
                   response = ignore_num_err (infer_reply env)
               in
                 if \<not> nrt_ok response
                 then (Returned (nrt_error_status ''infer'' response), m2, Some request)
                 else
                   (case (if sm_enabled shm
                          then add_shm_ofmap m2 (sm_output_ptrs shm) (sm_output_sizes shm)
                                 out_names response
                          else Some response) of
                      None \<Rightarrow> (Undefined_behaviour, m2, Some request)
                    | Some response' \<Rightarrow>
                        (case output_tensors of
                           None \<Rightarrow> (Returned OK, m2, Some request)
                         | Some outs \<Rightarrow>
                             (case copy_output_tensors cp m2 outs response' out_names of
                                (out, m3) \<Rightarrow> (out, m3, Some request))))))"

text \<open>\<open>RuntimeGRPC::infer_wait\<close>; the cookie is the one in \<open>nmgr_outputs\<close>.\<close>

definition RuntimeGRPC_infer_wait ::
  "tensor_copy \<Rightarrow> infer_response \<Rightarrow> mem \<Rightarrow> Tensor list \<Rightarrow> 64 word \<Rightarrow> string list
     \<Rightarrow> outcome \<times> mem"
where
  "RuntimeGRPC_infer_wait cp reply m output_tensors cookie out_names =
     (let response = ignore_num_err reply in
        if \<not> nrt_ok response then (Returned (nrt_error_status ''infer_wait'' response), m)
        else copy_output_tensors cp m output_tensors response out_names)"

text \<open>
  What the spec says \<open>start_model\<close> does, in its words: a different running model is
  stopped and the running id cleared; then, if no model is running, the requested one is
  started and recorded as running.
\<close>

definition spec_start_model :: "nrt_consts \<Rightarrow> NeuronDevice \<Rightarrow> u32 \<Rightarrow> NeuronDevice \<times> rpc list" where
  "spec_start_model K d nn_id =
     (let stops = (if is_busy K d \<and> running_nn_id d \<noteq> nn_id then [Stop (running_nn_id d)] else []);
          d1 = (if stops \<noteq> [] then set_running d (NRT_INVALID_NN_ID K) else d);
          starts = (if \<not> is_busy K d1 then [Start nn_id] else []);
          d2 = (if starts \<noteq> [] then set_running d1 nn_id else d1)
      in (d2, stops @ starts))"

text \<open>The parts of the result of \<open>NeuronDevice_infer\<close>.\<close>

definition infer_outcome ::
  "outcome \<times> NeuronDevice \<times> mem \<times> rpc list \<times> infer_request option \<Rightarrow> outcome" where
  "infer_outcome r = fst r"

definition infer_device ::
  "outcome \<times> NeuronDevice \<times> mem \<times> rpc list \<times> infer_request option \<Rightarrow> NeuronDevice" where
  "infer_device r = fst (snd r)"

definition infer_mem ::
  "outcome \<times> NeuronDevice \<times> mem \<times> rpc list \<times> infer_request option \<Rightarrow> mem" where
  "infer_mem r = fst (snd (snd r))"

definition infer_rpcs ::
  "outcome \<times> NeuronDevice \<times> mem \<times> rpc list \<times> infer_request option \<Rightarrow> rpc list" where
  "infer_rpcs r = fst (snd (snd (snd r)))"

section \<open>Concrete inputs used by the examples\<close>

text \<open>Values for the header's constants, small enough to evaluate with.\<close>

definition example_consts :: nrt_consts where
  "example_consts =
     \<lparr>NRT_INVALID_NN_ID = 0, EXEC_MAX_CHUNK_SIZE = 2, MAX_NUM_CORES = 64,
      MIN_NUM_CORES = 1, DEFAULT_NUM_CORES = - 1\<rparr>"

definition fresh_device :: NeuronDevice where
  "fresh_device =
     \<lparr>nrtd_address = [], create_eg_done = False, eg_id = 0, num_cores = 0,
      running_nn_id = 0, nn_id_set = {}\<rparr>"

text \<open>A pool before initialisation, with room for four groups.\<close>

definition fresh_pool :: NeuronDeviceManager where
  "fresh_pool =
     \<lparr>mgr_nrtd_address = [], device_array = replicate 4 fresh_device, num_devices = 0,
      device_index = 0, ready = False, path_set = False\<rparr>"

definition create_eg_granted :: "u32 \<Rightarrow> u32 \<Rightarrow> create_eg_env" where
  "create_eg_granted n h =
     (StubReady, \<lparr>grpc = GRPC_OK, code = NERR_OK, nc_count = n, h_eg = h\<rparr>)"

definition create_eg_refused :: create_eg_env where
  "create_eg_refused =
     (StubReady, \<lparr>grpc = GRPC_OK, code = NERR_OTHER 1, nc_count = 0, h_eg = 0\<rparr>)"

definition example_env :: "string option \<Rightarrow> (nat \<Rightarrow> create_eg_env) \<Rightarrow> (nat \<Rightarrow> nat \<Rightarrow> nat) \<Rightarrow> host_env" where
  "example_env sizes answers pos =
     \<lparr>getenv_NEURON_RTD_ADDRESS = None, getenv_NEURONCORE_GROUP_SIZES = sizes,
      manager_stub = StubReady, create_eg_answers = answers, indeterminate_pos = pos\<rparr>"

text \<open>A ready pool with two active groups.\<close>

definition ready_pool2 :: NeuronDeviceManager where
  "ready_pool2 = fresh_pool\<lparr>num_devices := 2, ready := True\<rparr>"

text \<open>A host that grants every group but the second.\<close>

definition second_refused :: "nat \<Rightarrow> create_eg_env" where
  "second_refused k = (if k = 1 then create_eg_refused else create_eg_granted 2 (of_nat k + 1))"

text \<open>A host that refuses the first creation and grants the others.\<close>

definition first_refused :: "nat \<Rightarrow> create_eg_env" where
  "first_refused k = (if k = 0 then create_eg_refused else create_eg_granted 3 7)"

text \<open>A host that grants every creation.\<close>

definition grant_all :: "nat \<Rightarrow> create_eg_env" where
  "grant_all k = create_eg_granted 1 (of_nat k + 1)"

text \<open>A store whose byte at address \<open>a\<close> is \<open>a mod 256\<close>, a four-byte float tensor at
  address 16 and eight source bytes at address 0.\<close>

definition example_mem :: mem where
  "example_mem a = word_of_nat a"

definition example_tensor :: Tensor where
  "example_tensor = \<lparr>dtype = DT_FLOAT, tensor_data = 16, tensor_size = 4\<rparr>"



text \<open>A load of five bytes on group 9 whose sixth write, the third chunk, fails.\<close>

definition third_chunk_fails :: load_env where
  "third_chunk_fails =
     \<lparr>oneof_data = True, write_ok = (\<lambda>k. k \<noteq> 5), writes_done_ok = True,
      finish_reply = \<lparr>grpc = GRPC_OK, code = NERR_OK, h_nn = 7\<rparr>\<rparr>"

definition group9 :: NeuronDevice where
  "group9 = fresh_device\<lparr>create_eg_done := True, eg_id := 9\<rparr>"

definition five_bytes :: "8 word list" where
  "five_bytes = [1, 2, 3, 4, 5]"

text \<open>A copy that stores the source bytes in the tensor's buffer when the sizes agree, and
  a response with the numeric-error code and one output.\<close>

definition store_bytes :: tensor_copy where
  "store_bytes m t src =
     (if length src \<noteq> tensor_size t
      then (Error OUT_OF_RANGE ''unexpected tensor size in tensor_memcpy'' None, m)
      else (OK, (\<lambda>x. if tensor_data t \<le> x \<and> x < tensor_data t + length src
                      then src ! (x - tensor_data t) else m x)))"

definition num_err_reply :: infer_response where
  "num_err_reply =
     \<lparr>grpc = GRPC_OK, code = NERR_INFER_COMPLETED_WITH_NUM_ERR, ofmap = [(''out'', [1, 2, 3, 4])]\<rparr>"

text \<open>A created group on which model 5 runs, a daemon that refuses and one that accepts,
  and an inference with one input and one output without shared memory.\<close>

definition running5 :: NeuronDevice where
  "running5 = fresh_device\<lparr>create_eg_done := True, running_nn_id := 5\<rparr>"

definition refused :: rpc_reply where
  "refused = \<lparr>grpc = GRPC_OK, code = NERR_OTHER 1\<rparr>"

definition accepted :: rpc_reply where
  "accepted = \<lparr>grpc = GRPC_OK, code = NERR_OK\<rparr>"

definition daemon_ok :: infer_env where
  "daemon_ok =
     \<lparr>stop_reply = accepted, start_reply = accepted, infer_reply = num_err_reply,
      daemon_writes = (\<lambda>m. m)\<rparr>"

definition no_shm :: SharedMemoryManager where
  "no_shm = example_shm\<lparr>enabled := False\<rparr>"

definition example_infer ::
  "infer_env \<Rightarrow> NeuronDevice \<Rightarrow> mem \<Rightarrow> u32
     \<Rightarrow> outcome \<times> NeuronDevice \<times> mem \<times> rpc list \<times> infer_request option" where
  "example_infer env d m nn_id =
     NeuronDevice_infer example_consts store_bytes env d m [example_tensor] nn_id
       [''in''] [''out''] [example_tensor] no_shm"

text \<open>No shared memory for \<open>RuntimeGRPC::infer\<close>; and a daemon that answers an inference
  through shared memory with the numeric-error code, leaving the output in the buffer at
  200.\<close>

definition no_sm :: SharedMemory where
  "no_sm =
     \<lparr>sm_enabled = False, sm_input_paths = [], sm_input_ptrs = [], sm_output_paths = [],
      sm_output_ptrs = [], sm_output_sizes = []\<rparr>"

definition shm_reply :: infer_response where
  "shm_reply = \<lparr>grpc = GRPC_OK, code = NERR_INFER_COMPLETED_WITH_NUM_ERR, ofmap = []\<rparr>"

definition daemon_shm :: infer_env where
  "daemon_shm =
     \<lparr>stop_reply = accepted, start_reply = accepted, infer_reply = shm_reply,
      daemon_writes = (\<lambda>m. m(200 := 9, 201 := 8, 202 := 7, 203 := 6))\<rparr>"

fun is_stop :: "rpc \<Rightarrow> bool" where
  "is_stop (Stop _) = True"
| "is_stop _ = False"

fun is_start :: "rpc \<Rightarrow> bool" where
  "is_start (Start _) = True"
| "is_start _ = False"

section \<open>Properties of start\_model\<close>

lemma start_model_already_running:
  "create_eg_done d \<Longrightarrow> running K d nn_id \<Longrightarrow> start_model K stop_r start_r d nn_id = (OK, d, [])"
  by (auto simp: start_model_def running_def is_busy_def Let_def)

lemma start_model_idle:
  "create_eg_done d \<Longrightarrow> \<not> is_busy K d \<Longrightarrow>
   start_model K stop_r start_r d nn_id =
     (if nrt_ok start_r then (OK, set_running d nn_id, [Start nn_id])
      else (nrt_error_status ''start'' start_r, d, [Start nn_id]))"
  by (auto simp: start_model_def running_def is_busy_def Let_def set_running_def)

lemma start_model_switch:
  "create_eg_done d \<Longrightarrow> is_busy K d \<Longrightarrow> \<not> running K d nn_id \<Longrightarrow>
   start_model K stop_r start_r d nn_id =
     (if \<not> nrt_ok stop_r then (nrt_error_status ''stop'' stop_r, d, [Stop (running_nn_id d)])
      else if nrt_ok start_r
      then (OK, set_running d nn_id, [Stop (running_nn_id d), Start nn_id])
      else (nrt_error_status ''start'' start_r, set_running d (NRT_INVALID_NN_ID K),
            [Stop (running_nn_id d), Start nn_id]))"
  by (auto simp: start_model_def running_def is_busy_def set_running_def
      nn_get_current_running_def Let_def)

section \<open>Initialising the pool\<close>

lemma init_stub_OK: "init_stub sr = OK \<longleftrightarrow> sr = StubReady"
  by (cases sr) (simp_all add: init_stub_def)

lemma NeuronDevice_initialize_status:
  "fst (NeuronDevice_initialize K e d a n) = OK \<longleftrightarrow> create_eg_succeeds e"
  by (auto simp: NeuronDevice_initialize_def Let_def create_eg_succeeds_def init_stub_OK
      nrt_ok_def nrt_error_status_def)

lemma NeuronDevice_initialize_status_indep:
  "fst (NeuronDevice_initialize K e d a n) = fst (NeuronDevice_initialize K' e d' a n')"
  by (simp add: NeuronDevice_initialize_def Let_def)

lemma NeuronDevice_initialize_rpcs:
  "snd (snd (NeuronDevice_initialize K e d a n)) = create_eg_rpcs e n"
  by (auto simp: NeuronDevice_initialize_def Let_def create_eg_rpcs_def init_stub_OK)

lemma NeuronDevice_initialize_done:
  "create_eg_succeeds e \<Longrightarrow>
   fst (snd (NeuronDevice_initialize K e d a n)) =
     d\<lparr>nrtd_address := a, num_cores := nc_count (snd e), eg_id := h_eg (snd e),
       create_eg_done := True, running_nn_id := NRT_INVALID_NN_ID K\<rparr>"
  by (auto simp: NeuronDevice_initialize_def Let_def create_eg_succeeds_def init_stub_OK nrt_ok_def)

lemma NeuronDevice_initialize_cases:
  assumes "NeuronDevice_initialize K e d a n = (st, d', t)"
  shows "(st = OK \<longleftrightarrow> create_eg_succeeds e) \<and> t = create_eg_rpcs e n
       \<and> (create_eg_succeeds e \<longrightarrow> create_eg_done d')"
  using NeuronDevice_initialize_status [of K e d a n] NeuronDevice_initialize_rpcs [of K e d a n]
    NeuronDevice_initialize_done [of e K d a n] assms
  by auto

lemma groups_created_le: "groups_created env idx n \<le> n"
  by (induction n arbitrary: idx) auto

lemma init_devices_loop_frame:
  "init_devices_loop K env rest idx st m = (st', m', t) \<Longrightarrow>
   mgr_nrtd_address m' = mgr_nrtd_address m
   \<and> length (device_array m') = length (device_array m)
   \<and> num_devices m' = num_devices m + groups_created env idx (length rest)"
proof (induction rest arbitrary: idx st m st' m' t)
  case Nil
  then show ?case by simp
next
  case (Cons n rest)
  obtain st1 d1 t1 where i: "NeuronDevice_initialize K (env idx) (device_array m ! idx) (mgr_nrtd_address m) n = (st1, d1, t1)"
    by (cases "NeuronDevice_initialize K (env idx) (device_array m ! idx) (mgr_nrtd_address m) n") auto
  note c = NeuronDevice_initialize_cases [OF i]
  show ?case
  proof (cases "st1 = OK")
    case False
    with Cons.prems i c show ?thesis by (auto simp: Let_def)
  next
    case True
    define m1 where "m1 = m\<lparr>device_array := (device_array m)[idx := d1], num_devices := Suc (num_devices m)\<rparr>"
    obtain st2 m2 t2 where r: "init_devices_loop K env rest (Suc idx) st1 m1 = (st2, m2, t2)"
      by (cases "init_devices_loop K env rest (Suc idx) st1 m1") auto
    have res: "st' = st2" "m' = m2" "t = t1 @ t2"
      using Cons.prems i True r by (simp_all add: Let_def m1_def)
    from Cons.IH [OF r] c True show ?thesis
      unfolding res by (simp add: m1_def)
  qed
qed


lemma init_devices_loop_status:
  "init_devices_loop K env rest idx st m = (st', m', t) \<Longrightarrow>
   (groups_created env idx (length rest) < length rest \<longrightarrow>
      st' = fst (NeuronDevice_initialize K' (env (idx + groups_created env idx (length rest))) d
                  (mgr_nrtd_address m) n'))
   \<and> (groups_created env idx (length rest) = length rest \<longrightarrow> rest \<noteq> [] \<longrightarrow> st' = OK)
   \<and> (rest = [] \<longrightarrow> st' = st)"
proof (induction rest arbitrary: idx st m st' m' t)
  case Nil
  then show ?case by simp
next
  case (Cons n rest)
  obtain st1 d1 t1 where i: "NeuronDevice_initialize K (env idx) (device_array m ! idx) (mgr_nrtd_address m) n = (st1, d1, t1)"
    by (cases "NeuronDevice_initialize K (env idx) (device_array m ! idx) (mgr_nrtd_address m) n") auto
  note c = NeuronDevice_initialize_cases [OF i]
  have st1: "st1 = fst (NeuronDevice_initialize K' (env idx) d (mgr_nrtd_address m) n')"
    using NeuronDevice_initialize_status_indep [of K "env idx" "device_array m ! idx" "mgr_nrtd_address m" n K' d n'] i
    by simp
  show ?case
  proof (cases "st1 = OK")
    case False
    with Cons.prems i c st1 show ?thesis by (auto simp: Let_def)
  next
    case True
    define m1 where "m1 = m\<lparr>device_array := (device_array m)[idx := d1], num_devices := Suc (num_devices m)\<rparr>"
    obtain st2 m2 t2 where r: "init_devices_loop K env rest (Suc idx) st1 m1 = (st2, m2, t2)"
      by (cases "init_devices_loop K env rest (Suc idx) st1 m1") auto
    have res: "st' = st2" "m' = m2" "t = t1 @ t2"
      using Cons.prems i True r by (simp_all add: Let_def m1_def)
    have a: "mgr_nrtd_address m1 = mgr_nrtd_address m" by (simp add: m1_def)
    from Cons.IH [OF r] c True show ?thesis
      unfolding res a by (cases "rest = []") auto
  qed
qed

lemma init_devices_loop_devices:
  "init_devices_loop K env rest idx st m = (st', m', t) \<Longrightarrow>
   idx + length rest \<le> length (device_array m) \<Longrightarrow>
   (\<forall>i < groups_created env idx (length rest). create_eg_done (device_array m' ! (idx + i)))
   \<and> (\<forall>j. j < idx \<or> idx + min (Suc (groups_created env idx (length rest))) (length rest) \<le> j
          \<longrightarrow> device_array m' ! j = device_array m ! j)"
proof (induction rest arbitrary: idx st m st' m' t)
  case Nil
  then show ?case by simp
next
  case (Cons n rest)
  obtain st1 d1 t1 where i: "NeuronDevice_initialize K (env idx) (device_array m ! idx) (mgr_nrtd_address m) n = (st1, d1, t1)"
    by (cases "NeuronDevice_initialize K (env idx) (device_array m ! idx) (mgr_nrtd_address m) n") auto
  note c = NeuronDevice_initialize_cases [OF i]
  show ?case
  proof (cases "st1 = OK")
    case False
    with Cons.prems i c show ?thesis by (auto simp: Let_def)
  next
    case True
    define m1 where "m1 = m\<lparr>device_array := (device_array m)[idx := d1], num_devices := Suc (num_devices m)\<rparr>"
    obtain st2 m2 t2 where r: "init_devices_loop K env rest (Suc idx) st1 m1 = (st2, m2, t2)"
      by (cases "init_devices_loop K env rest (Suc idx) st1 m1") auto
    have res: "st' = st2" "m' = m2" "t = t1 @ t2"
      using Cons.prems(1) i True r by (simp_all add: Let_def m1_def)
    have len: "Suc idx + length rest \<le> length (device_array m1)"
      using Cons.prems(2) by (simp add: m1_def)
    have ok: "create_eg_succeeds (env idx)" and d1: "create_eg_done d1"
      using c True by auto
    note ih = Cons.IH [OF r len]
    have keep: "device_array m2 ! idx = d1"
    proof -
      have "device_array m2 ! idx = device_array m1 ! idx" using ih by simp
      then show ?thesis using Cons.prems(2) by (simp add: m1_def)
    qed
    have A: "create_eg_done (device_array m2 ! (idx + i))"
      if "i < groups_created env idx (length (n # rest))" for i
    proof (cases i)
      case 0
      then show ?thesis using keep d1 by simp
    next
      case (Suc i')
      then have "i' < groups_created env (Suc idx) (length rest)" using that ok by simp
      then show ?thesis using ih Suc by simp
    qed
    have B: "device_array m2 ! j = device_array m ! j"
      if "j < idx \<or> idx + min (Suc (groups_created env idx (length (n # rest)))) (length (n # rest)) \<le> j" for j
    proof -
      have "j < Suc idx \<or> Suc idx + min (Suc (groups_created env (Suc idx) (length rest))) (length rest) \<le> j"
        using that ok by auto
      then have "device_array m2 ! j = device_array m1 ! j" using ih by blast
      moreover have "j \<noteq> idx" using that by auto
      ultimately show ?thesis by (simp add: m1_def)
    qed
    show ?thesis unfolding res using A B by blast
  qed
qed

lemma init_devices_loop_trace:
  "init_devices_loop K env rest idx st m = (st', m', t) \<Longrightarrow>
   t = concat (map (\<lambda>i. create_eg_rpcs (env (idx + i)) (rest ! i))
                [0..<min (Suc (groups_created env idx (length rest))) (length rest)])"
proof (induction rest arbitrary: idx st m st' m' t)
  case Nil
  then show ?case by simp
next
  case (Cons n rest)
  obtain st1 d1 t1 where i: "NeuronDevice_initialize K (env idx) (device_array m ! idx) (mgr_nrtd_address m) n = (st1, d1, t1)"
    by (cases "NeuronDevice_initialize K (env idx) (device_array m ! idx) (mgr_nrtd_address m) n") auto
  note c = NeuronDevice_initialize_cases [OF i]
  show ?case
  proof (cases "st1 = OK")
    case False
    with Cons.prems i c show ?thesis by (auto simp: Let_def)
  next
    case True
    define m1 where "m1 = m\<lparr>device_array := (device_array m)[idx := d1], num_devices := Suc (num_devices m)\<rparr>"
    obtain st2 m2 t2 where r: "init_devices_loop K env rest (Suc idx) st1 m1 = (st2, m2, t2)"
      by (cases "init_devices_loop K env rest (Suc idx) st1 m1") auto
    have res: "st' = st2" "m' = m2" "t = t1 @ t2"
      using Cons.prems(1) i True r by (simp_all add: Let_def m1_def)
    have ok: "create_eg_succeeds (env idx)" and t1: "t1 = create_eg_rpcs (env idx) n"
      using c True by auto
    define k where "k = min (Suc (groups_created env (Suc idx) (length rest))) (length rest)"
    have mn: "min (Suc (groups_created env idx (length (n # rest)))) (length (n # rest)) = Suc k"
      using ok by (simp add: k_def)
    have up: "[0..<Suc k] = 0 # map Suc [0..<k]"
      by (simp add: upt_conv_Cons map_Suc_upt del: upt_Suc)
    have "t2 = concat (map (\<lambda>i. create_eg_rpcs (env (Suc idx + i)) (rest ! i)) [0..<k])"
      using Cons.IH [OF r] by (simp add: k_def)
    then show ?thesis
      unfolding res mn up t1 by (simp add: o_def)
  qed
qed

declare search_default_device.simps [simp del]

lemma search_default_device_result:
  "nat (c - MIN_NUM_CORES K + 1) = n \<Longrightarrow>
   search_default_device K env c k st m = (st', m', t) \<Longrightarrow>
   (case first_granted env k n of
      Some j \<Rightarrow>
        st' = OK \<and> num_devices m' = 1
        \<and> (device_array m \<noteq> [] \<longrightarrow> create_eg_done (device_array m' ! 0))
        \<and> t = concat (map (\<lambda>i. create_eg_rpcs (env (k + i)) (c - int i)) [0..<Suc j])
    | None \<Rightarrow>
        num_devices m' = 0
        \<and> t = concat (map (\<lambda>i. create_eg_rpcs (env (k + i)) (c - int i)) [0..<n])
        \<and> (n = 0 \<longrightarrow> st' = st)
        \<and> (0 < n \<longrightarrow> st' \<noteq> OK \<and>
              st' = fst (NeuronDevice_initialize K' (env (k + n - 1)) d (mgr_nrtd_address m) n')))"
proof (induction n arbitrary: c k st m st' m' t)
  case 0
  then have "\<not> c \<ge> MIN_NUM_CORES K" by auto
  with 0 show ?case
    by (subst (asm) search_default_device.simps) auto
next
  case (Suc n)
  then have ge: "c \<ge> MIN_NUM_CORES K" and n: "nat (c - 1 - MIN_NUM_CORES K + 1) = n" by auto
  obtain st1 d1 t1 where i: "NeuronDevice_initialize K (env k) (device_array m ! 0) (mgr_nrtd_address m) c = (st1, d1, t1)"
    by (cases "NeuronDevice_initialize K (env k) (device_array m ! 0) (mgr_nrtd_address m) c") auto
  note cs = NeuronDevice_initialize_cases [OF i]
  have st1: "st1 = fst (NeuronDevice_initialize K' (env k) d (mgr_nrtd_address m) n')"
    using NeuronDevice_initialize_status_indep [of K "env k" "device_array m ! 0" "mgr_nrtd_address m" c K' d n'] i
    by simp
  define m1 where "m1 = m\<lparr>device_array := (device_array m)[0 := d1]\<rparr>"
  show ?case
  proof (cases "st1 = OK")
    case True
    have "search_default_device K env c k st m = (st1, m1\<lparr>num_devices := 1\<rparr>, t1)"
      by (subst search_default_device.simps) (simp add: ge i True Let_def m1_def)
    with Suc.prems(2) have res: "st' = st1" "m' = m1\<lparr>num_devices := 1\<rparr>" "t = t1" by simp_all
    show ?thesis using True cs unfolding res by (auto simp: m1_def)
  next
    case False
    obtain st2 m2 t2 where r: "search_default_device K env (c - 1) (Suc k) st1 m1 = (st2, m2, t2)"
      by (cases "search_default_device K env (c - 1) (Suc k) st1 m1") auto
    have "search_default_device K env c k st m = (st2, m2, t1 @ t2)"
      by (subst search_default_device.simps) (simp add: ge i False Let_def m1_def [symmetric] r)
    with Suc.prems(2) have res: "st' = st2" "m' = m2" "t = t1 @ t2" by simp_all
    have nok: "\<not> create_eg_succeeds (env k)" and t1: "t1 = create_eg_rpcs (env k) c"
      using False cs by auto
    have a: "mgr_nrtd_address m1 = mgr_nrtd_address m" and ne: "device_array m1 \<noteq> [] \<longleftrightarrow> device_array m \<noteq> []"
      by (simp_all add: m1_def)
    define F where "F = (\<lambda>i. create_eg_rpcs (env (k + i)) (c - int i))"
    have up: "[0..<Suc x] = 0 # map Suc [0..<x]" for x
      by (simp add: upt_conv_Cons map_Suc_upt del: upt_Suc)
    have cc: "concat (map F [0..<Suc x]) = F 0 @ concat (map (\<lambda>i. F (Suc i)) [0..<x])" for x
      unfolding up by (simp add: o_def)
    have sh: "(\<lambda>i. create_eg_rpcs (env (Suc k + i)) (c - 1 - int i)) = (\<lambda>i. F (Suc i))"
      by (simp add: F_def algebra_simps)
    have F0: "F 0 = create_eg_rpcs (env k) c" by (simp add: F_def)
    have last: "Suc k + n - 1 = k + Suc n - 1" by simp
    note ih = Suc.IH [OF n r, unfolded a ne sh last]
    show ?thesis
    proof (cases "first_granted env (Suc k) n")
      case None
      have fg: "first_granted env k (Suc n) = None" using None nok by simp
      have "t = concat (map F [0..<Suc n])"
        unfolding res t1 cc F0 using ih None by simp
      moreover have "num_devices m2 = 0" using ih None by simp
      moreover have "st2 \<noteq> OK \<and> st2 = fst (NeuronDevice_initialize K' (env (k + Suc n - 1)) d (mgr_nrtd_address m) n')"
      proof (cases "n = 0")
        case True
        then have "st2 = st1" using ih None by simp
        then show ?thesis using False st1 True by simp
      next
        case False
        then show ?thesis using ih None by auto
      qed
      ultimately show ?thesis
        unfolding fg res F_def option.case by blast
    next
      case (Some j)
      have fg: "first_granted env k (Suc n) = Some (Suc j)" using Some nok by simp
      have "t = concat (map F [0..<Suc (Suc j)])"
        unfolding res t1 cc [of "Suc j"] F0 using ih Some by simp
      moreover have "st2 = OK" "num_devices m2 = 1"
        "device_array m \<noteq> [] \<longrightarrow> create_eg_done (device_array m2 ! 0)"
        using ih Some by simp_all
      ultimately show ?thesis
        unfolding fg res F_def option.case by blast
    qed
  qed
qed

text \<open>
  C5. \<open>init_devices\<close> on a pool with no active group, a non-empty plan and room in
  \<open>device_array_\<close>: the groups are attempted in the plan's order; with \<open>k\<close> the number of
  attempts that succeed before the first failure, exactly \<open>k\<close> groups are active afterwards
  and each of them has been created; nothing is attempted after the first failure (the
  devices behind it are untouched, and the RPCs issued are those of the first
  \<open>min (k + 1) (length plan)\<close> attempts); the result is OK if and only if \<open>k > 0\<close>; and
  with \<open>k = 0\<close> the result is the error of the first attempt, which is the only one.
\<close>

theorem init_devices_partial_success:
  assumes "num_devices m = 0" and "plan \<noteq> []" and "length plan \<le> length (device_array m)"
  shows "case init_devices K env m plan of
           (st, m', t) \<Rightarrow>
             num_devices m' = groups_created env 0 (length plan)
             \<and> (\<forall>i < groups_created env 0 (length plan). create_eg_done (device_array m' ! i))
             \<and> (\<forall>j \<ge> min (Suc (groups_created env 0 (length plan))) (length plan).
                   device_array m' ! j = device_array m ! j)
             \<and> t = concat (map (\<lambda>i. create_eg_rpcs (env i) (plan ! i))
                       [0..<min (Suc (groups_created env 0 (length plan))) (length plan)])
             \<and> (st = OK \<longleftrightarrow> 0 < groups_created env 0 (length plan))
             \<and> (groups_created env 0 (length plan) = 0 \<longrightarrow>
                   st = fst (NeuronDevice_initialize K (env 0) (device_array m ! 0)
                               (mgr_nrtd_address m) (plan ! 0)))"
proof -
  define st0 where "st0 = Error INTERNAL ''No NeuronCore Group can be initialized.'' None"
  define k where "k = groups_created env 0 (length plan)"
  obtain st1 m1 t1 where r: "init_devices_loop K env plan 0 st0 m = (st1, m1, t1)"
    by (cases "init_devices_loop K env plan 0 st0 m") auto
  have nd: "num_devices m1 = k"
    using init_devices_loop_frame [OF r] assms(1) by (simp add: k_def)
  have len: "0 + length plan \<le> length (device_array m)" using assms(3) by simp
  have dev: "\<forall>i<k. create_eg_done (device_array m1 ! i)"
    and keep: "\<forall>j \<ge> min (Suc k) (length plan). device_array m1 ! j = device_array m ! j"
    using init_devices_loop_devices [OF r len] by (simp_all add: k_def)
  have tr: "t1 = concat (map (\<lambda>i. create_eg_rpcs (env i) (plan ! i)) [0..<min (Suc k) (length plan)])"
    using init_devices_loop_trace [OF r] by (simp add: k_def)
  have kl: "k \<le> length plan" unfolding k_def by (rule groups_created_le)
  have st_fail: "st1 = fst (NeuronDevice_initialize K (env 0) (device_array m ! 0) (mgr_nrtd_address m) (plan ! 0))"
    if "k = 0"
    using init_devices_loop_status [OF r, of K "device_array m ! 0" "plan ! 0"] that assms(2)
    by (simp add: k_def)
  have nok: "st1 \<noteq> OK" if "k = 0"
  proof -
    obtain n rest where p: "plan = n # rest" using assms(2) by (cases plan) auto
    have "\<not> create_eg_succeeds (env 0)" using that unfolding k_def p by (simp split: if_splits)
    then show ?thesis
      using st_fail [OF that] NeuronDevice_initialize_status [of K "env 0" "device_array m ! 0" "mgr_nrtd_address m" "plan ! 0"]
      by simp
  qed
  have res: "init_devices K env m plan = (if 0 = k then (st1, m1, t1) else (OK, m1, t1))"
    by (simp add: init_devices_def st0_def [symmetric] r nd)
  show ?thesis
    unfolding res k_def [symmetric]
    using nd dev keep tr st_fail nok by (cases "k = 0") auto
qed

theorem init_devices_partial_success_witness:
  "num_devices fresh_pool = 0 \<and> [2, 2 :: int] \<noteq> []
   \<and> length [2, 2 :: int] \<le> length (device_array fresh_pool)
   \<and> groups_created second_refused 0 (length [2, 2 :: int]) = 1
   \<and> fst (init_devices example_consts second_refused fresh_pool [2, 2]) = OK
   \<and> num_devices (fst (snd (init_devices example_consts second_refused fresh_pool [2, 2]))) = 1
   \<and> create_eg_done (device_array (fst (snd (init_devices example_consts second_refused fresh_pool [2, 2]))) ! 0)
   \<and> snd (snd (init_devices example_consts second_refused fresh_pool [2, 2]))
        = [CreateEg (Some 2), CreateEg (Some 2)]"
proof -
  have h1: "num_devices fresh_pool = 0" and h2: "[2, 2 :: int] \<noteq> []"
    and h3: "length [2, 2 :: int] \<le> length (device_array fresh_pool)"
    by (simp_all add: fresh_pool_def)
  have g: "groups_created second_refused 0 (Suc (Suc 0)) = Suc 0"
    by (simp add: second_refused_def create_eg_succeeds_def create_eg_granted_def
        create_eg_refused_def nrt_ok_def)
  obtain st m' t where r: "init_devices example_consts second_refused fresh_pool [2, 2] = (st, m', t)"
    by (cases "init_devices example_consts second_refused fresh_pool [2, 2]") auto
  have e0: "second_refused 0 = create_eg_granted 2 1" and e1: "second_refused (Suc 0) = create_eg_refused"
    by (simp_all add: second_refused_def)
  have "num_devices m' = 1 \<and> create_eg_done (device_array m' ! 0) \<and> st = OK
        \<and> t = [CreateEg (Some 2), CreateEg (Some 2)]"
    using init_devices_partial_success [OF h1 h2 h3, where K = example_consts and env = second_refused]
    unfolding r
    by (simp add: e0 e1 create_eg_rpcs_def create_eg_granted_def create_eg_refused_def
        create_eg_request_def create_eg_succeeds_def nrt_ok_def)
  then show ?thesis
    using h1 h2 h3 g by (simp add: r)
qed

text \<open>
  C8, as the code has it. With a core budget \<open>opt\<close> in \<open>[0, 64]\<close> and no sizing list:
  a budget of 1 initialises the plan \<open>[1, 1, 1, 1]\<close> and a budget of 2 the plan \<open>[2, 2]\<close>;
  any other budget tries the sizes \<open>opt, opt - 1, ...\<close> down to \<open>MIN_NUM_CORES\<close>, one by
  one, on \<open>device_array_[0]\<close>, and stops at the first that succeeds. If attempt \<open>j\<close> is the
  first to succeed, the result is OK with exactly one active group, created by the
  request for \<open>opt - j\<close> cores, after the requests for \<open>opt, ..., opt - j\<close>. If none
  succeeds, no group is active, every size was requested, and the result is the error
  of the last attempt (the initial internal error when there was no size to try).
\<close>

theorem init_default_device_search:
  assumes "0 \<le> opt" and "opt \<le> 64"
  shows "(opt = 1 \<longrightarrow> init_default_device K env m opt = init_devices K env m [1, 1, 1, 1])
       \<and> (opt = 2 \<longrightarrow> init_default_device K env m opt = init_devices K env m [2, 2])
       \<and> (opt \<noteq> 1 \<longrightarrow> opt \<noteq> 2 \<longrightarrow>
            (case init_default_device K env m opt of
               (st, m', t) \<Rightarrow>
                 (case first_granted env 0 (nat (opt - MIN_NUM_CORES K + 1)) of
                    Some j \<Rightarrow>
                      st = OK \<and> num_devices m' = 1
                      \<and> (device_array m \<noteq> [] \<longrightarrow> create_eg_done (device_array m' ! 0))
                      \<and> t = concat (map (\<lambda>i. create_eg_rpcs (env i) (opt - int i)) [0..<Suc j])
                  | None \<Rightarrow>
                      num_devices m' = 0
                      \<and> t = concat (map (\<lambda>i. create_eg_rpcs (env i) (opt - int i))
                                [0..<nat (opt - MIN_NUM_CORES K + 1)])
                      \<and> (nat (opt - MIN_NUM_CORES K + 1) = 0 \<longrightarrow>
                            st = Error INTERNAL ''No NeuronCore Group can be initialized.'' None)
                      \<and> (0 < nat (opt - MIN_NUM_CORES K + 1) \<longrightarrow>
                            st \<noteq> OK \<and>
                            st = fst (NeuronDevice_initialize K
                                       (env (nat (opt - MIN_NUM_CORES K + 1) - 1))
                                       (device_array m ! 0) (mgr_nrtd_address m)
                                       (MIN_NUM_CORES K))))))"
proof -
  define st0 where "st0 = Error INTERNAL ''No NeuronCore Group can be initialized.'' None"
  define n where "n = nat (opt - MIN_NUM_CORES K + 1)"
  have range: "\<not> (opt < 0 \<or> opt > 64)" using assms by simp
  have one: "opt = 1 \<longrightarrow> init_default_device K env m opt = init_devices K env m [1, 1, 1, 1]"
    by (simp add: init_default_device_def)
  have two: "opt = 2 \<longrightarrow> init_default_device K env m opt = init_devices K env m [2, 2]"
    by (simp add: init_default_device_def)
  have other: "init_default_device K env m opt = search_default_device K env opt 0 st0 m"
    if "opt \<noteq> 1" "opt \<noteq> 2"
    using that range by (simp add: init_default_device_def st0_def)
  obtain st m' t where r: "search_default_device K env opt 0 st0 m = (st, m', t)"
    by (cases "search_default_device K env opt 0 st0 m") auto
  have n': "nat (opt - MIN_NUM_CORES K + 1) = n" by (simp add: n_def)
  note s = search_default_device_result [OF n' r, where K' = K and d = "device_array m ! 0"
      and n' = "MIN_NUM_CORES K"]
  have srch: "case search_default_device K env opt 0 st0 m of
               (st, m', t) \<Rightarrow>
                 (case first_granted env 0 n of
                    Some j \<Rightarrow>
                      st = OK \<and> num_devices m' = 1
                      \<and> (device_array m \<noteq> [] \<longrightarrow> create_eg_done (device_array m' ! 0))
                      \<and> t = concat (map (\<lambda>i. create_eg_rpcs (env i) (opt - int i)) [0..<Suc j])
                  | None \<Rightarrow>
                      num_devices m' = 0
                      \<and> t = concat (map (\<lambda>i. create_eg_rpcs (env i) (opt - int i)) [0..<n])
                      \<and> (n = 0 \<longrightarrow> st = st0)
                      \<and> (0 < n \<longrightarrow>
                            st \<noteq> OK \<and>
                            st = fst (NeuronDevice_initialize K (env (n - 1))
                                       (device_array m ! 0) (mgr_nrtd_address m)
                                       (MIN_NUM_CORES K))))"
    unfolding r prod.case using s by (cases "first_granted env 0 n") auto
  show ?thesis
    unfolding n_def [symmetric] st0_def [symmetric]
    using one two other srch by (simp add: n_def [symmetric])
qed

theorem init_default_device_search_witness:
  "(0::int) \<le> 4 \<and> (4::int) \<le> 64
   \<and> first_granted first_refused 0 (nat (4 - MIN_NUM_CORES example_consts + 1)) = Some 1
   \<and> fst (init_default_device example_consts first_refused fresh_pool 4) = OK
   \<and> num_devices (fst (snd (init_default_device example_consts first_refused fresh_pool 4))) = 1
   \<and> snd (snd (init_default_device example_consts first_refused fresh_pool 4))
        = [CreateEg (Some 4), CreateEg (Some 3)]"
proof -
  have h1: "(0::int) \<le> 4" and h2: "(4::int) \<le> 64" by simp_all
  have n: "nat (4 - MIN_NUM_CORES example_consts + 1) = Suc (Suc (Suc (Suc 0)))"
    by (simp add: example_consts_def)
  have g: "first_granted first_refused 0 (Suc (Suc (Suc (Suc 0)))) = Some 1"
    by (simp add: first_refused_def create_eg_succeeds_def create_eg_granted_def
        create_eg_refused_def nrt_ok_def)
  obtain st m' t where r: "init_default_device example_consts first_refused fresh_pool 4 = (st, m', t)"
    by (cases "init_default_device example_consts first_refused fresh_pool 4") auto
  have "st = OK \<and> num_devices m' = 1 \<and> t = [CreateEg (Some 4), CreateEg (Some 3)]"
    using init_default_device_search [OF h1 h2, where K = example_consts and env = first_refused
        and m = fresh_pool]
    unfolding r n g
    by (simp add: first_refused_def create_eg_rpcs_def create_eg_granted_def create_eg_refused_def
        create_eg_request_def)
  then show ?thesis
    unfolding r n g by simp
qed

text \<open>
  C8 as stated speaks of a binary search. With a budget of 8 and every creation refused,
  the code requests all eight sizes from 8 down to 1, one after the other; a binary
  search over these eight sizes would stop after four probes.
\<close>

theorem init_default_device_not_binary_counterexample:
  "snd (snd (init_default_device example_consts (\<lambda>k. create_eg_refused) fresh_pool 8))
     = [CreateEg (Some 8), CreateEg (Some 7), CreateEg (Some 6), CreateEg (Some 5),
        CreateEg (Some 4), CreateEg (Some 3), CreateEg (Some 2), CreateEg (Some 1)]
   \<and> nat (8 - MIN_NUM_CORES example_consts + 1) = 8
   \<and> binary_search_max_probes 8 = 4
   \<and> \<not> length (snd (snd (init_default_device example_consts (\<lambda>k. create_eg_refused) fresh_pool 8)))
         \<le> binary_search_max_probes (nat (8 - MIN_NUM_CORES example_consts + 1))"
proof -
  have b: "binary_search_max_probes 8 = 4"
    by (simp add: binary_search_max_probes.simps)
  have n: "nat (8 - MIN_NUM_CORES example_consts + 1) = 8"
    by (simp add: example_consts_def)
  have t: "snd (snd (init_default_device example_consts (\<lambda>k. create_eg_refused) fresh_pool 8))
     = [CreateEg (Some 8), CreateEg (Some 7), CreateEg (Some 6), CreateEg (Some 5),
        CreateEg (Some 4), CreateEg (Some 3), CreateEg (Some 2), CreateEg (Some 1)]"
    by (simp add: init_default_device_def search_default_device.simps example_consts_def
        NeuronDevice_initialize_def create_eg_refused_def init_stub_def nrt_ok_def Let_def
        create_eg_request_def nrt_error_status_def)
  show ?thesis unfolding t n b by simp
qed

section \<open>The configured sizing list\<close>

text \<open>
  When every read of the uninitialised \<open>pos\<close> happens to give 0, \<open>remove_pattern\<close> with
  a one-character pattern removes every occurrence of that character: the search starts
  at the beginning each time, and the loop runs once per character of the string at
  most.
\<close>

lemma take1_drop_iff:
  "take (length [c]) (drop i data) = [c] \<longleftrightarrow> i < length data \<and> data ! i = c"
proof (cases "i < length data")
  case True
  then have "drop i data = data ! i # drop (Suc i) data"
    by (simp add: Cons_nth_drop_Suc)
  then show ?thesis using True by simp
next
  case False
  then show ?thesis by simp
qed

lemma string_find_char_None:
  "string_find data [c] 0 = None \<longleftrightarrow> c \<notin> set data"
proof
  assume n: "string_find data [c] 0 = None"
  show "c \<notin> set data"
  proof
    assume "c \<in> set data"
    then obtain i where i: "i < length data" "data ! i = c"
      by (auto simp: in_set_conv_nth)
    then have "i \<in> set [0 ..< Suc (length data)]" by simp
    moreover have "take (length [c]) (drop i data) = [c]"
      using i take1_drop_iff [of c i data] by simp
    ultimately show False
      using n unfolding string_find_def find_None_iff by blast
  qed
next
  assume "c \<notin> set data"
  then have "\<not> (i < length data \<and> data ! i = c)" for i
    by (auto simp: in_set_conv_nth)
  then show "string_find data [c] 0 = None"
    unfolding string_find_def find_None_iff take1_drop_iff by blast
qed

lemma string_find_char_Some:
  assumes "string_find data [c] 0 = Some pos"
  shows "pos < length data \<and> data ! pos = c"
proof -
  from assms have "\<exists>i < length [0 ..< Suc (length data)].
      take (length [c]) (drop ([0 ..< Suc (length data)] ! i) data) = [c]
      \<and> pos = [0 ..< Suc (length data)] ! i"
    unfolding string_find_def find_Some_iff by blast
  then obtain i where "i < Suc (length data)" "take (length [c]) (drop i data) = [c]" "pos = i"
    by (auto simp del: upt_Suc)
  then show ?thesis using take1_drop_iff [of c pos data] by simp
qed

lemma filter_remove_at:
  assumes "pos < length data" and "data ! pos = c"
  shows "filter (\<lambda>x. x \<noteq> c) (take pos data @ drop (pos + length [c]) data) = filter (\<lambda>x. x \<noteq> c) data"
proof -
  have "data = take pos data @ c # drop (Suc pos) data"
    using id_take_nth_drop [OF assms(1)] assms(2) by simp
  then have "filter (\<lambda>x. x \<noteq> c) data = filter (\<lambda>x. x \<noteq> c) (take pos data @ c # drop (Suc pos) data)"
    by simp
  then show ?thesis by simp
qed

lemma remove_pattern_loop_from_start:
  "length data \<le> n - idx \<Longrightarrow>
   remove_pattern_loop (\<lambda>i. 0) [c] n idx data = filter (\<lambda>x. x \<noteq> c) data"
proof (induction "n - idx" arbitrary: idx data)
  case 0
  then have "data = []" "\<not> idx < n" by auto
  then show ?case by (subst remove_pattern_loop.simps) simp
next
  case (Suc k)
  then have lt: "idx < n" by simp
  show ?case
  proof (cases "string_find data [c] 0")
    case None
    then have "c \<notin> set data" by (simp add: string_find_char_None)
    then have "filter (\<lambda>x. x \<noteq> c) data = data" by (auto simp: filter_id_conv)
    then show ?thesis using None lt by (subst remove_pattern_loop.simps) simp
  next
    case (Some pos)
    note p = string_find_char_Some [OF Some]
    define data' where "data' = take pos data @ drop (pos + length [c]) data"
    have len: "length data' \<le> n - Suc idx"
      using p Suc.prems by (simp add: data'_def)
    have k: "k = n - Suc idx" using Suc.hyps(2) by simp
    have "remove_pattern_loop (\<lambda>i. 0) [c] n idx data = remove_pattern_loop (\<lambda>i. 0) [c] n (Suc idx) data'"
      using Some lt by (subst remove_pattern_loop.simps) (simp add: data'_def)
    also have "\<dots> = filter (\<lambda>x. x \<noteq> c) data'"
      using Suc.hyps(1) [OF k len] .
    also have "\<dots> = filter (\<lambda>x. x \<noteq> c) data"
      unfolding data'_def using p by (intro filter_remove_at) simp_all
    finally show ?thesis .
  qed
qed

lemma remove_pattern_from_start:
  "remove_pattern (\<lambda>i. 0) data [c] = filter (\<lambda>x. x \<noteq> c) data"
  unfolding remove_pattern_def by (rule remove_pattern_loop_from_start) simp

text \<open>
  C7. The sizing list the pool resolves depends on the value read from the uninitialised
  \<open>pos\<close> of \<open>remove_pattern\<close>. For \<open>NEURONCORE_GROUP_SIZES = "[1,1,1,1]"\<close> and a host that
  grants every creation: if the reads give 0, both brackets go, the list is
  \<open>[1, 1, 1, 1]\<close> and four groups are active; if they give 1, the search for the opening
  bracket starts behind it, the bracket stays, the first entry \<open>"[1"\<close> does not parse,
  the list is discarded, and the default plan for the budget (here 4) creates a single
  group.
\<close>

theorem resolve_group_sizes_uninitialised_pos:
  "resolve_group_sizes example_consts
     (example_env (Some ''[1,1,1,1]'') grant_all (\<lambda>c i. 0)) ''[1,1,1,1]'' = [1, 1, 1, 1]
   \<and> num_devices (fst (snd (NeuronDeviceManager_initialize example_consts
         (example_env (Some ''[1,1,1,1]'') grant_all (\<lambda>c i. 0)) fresh_pool 4))) = 4
   \<and> remove_pattern (\<lambda>i. 1) ''[1,1,1,1]'' ''['' = ''[1,1,1,1]''
   \<and> resolve_group_sizes example_consts
        (example_env (Some ''[1,1,1,1]'') grant_all (\<lambda>c i. 1)) ''[1,1,1,1]'' = []
   \<and> num_devices (fst (snd (NeuronDeviceManager_initialize example_consts
         (example_env (Some ''[1,1,1,1]'') grant_all (\<lambda>c i. 1)) fresh_pool 4))) = 1
   \<and> snd (snd (NeuronDeviceManager_initialize example_consts
         (example_env (Some ''[1,1,1,1]'') grant_all (\<lambda>c i. 1)) fresh_pool 4))
        = [CreateEg (Some 4)]"
  by code_simp

section \<open>Round-robin placement\<close>

lemma apply_for_device_ready:
  "ready m \<Longrightarrow> device_index m < num_devices m \<Longrightarrow>
   apply_for_device K E m opt =
     (OK, Some (device_index m), m\<lparr>device_index := Suc (device_index m) mod num_devices m\<rparr>, [])"
  by (auto simp: apply_for_device_def Let_def mod_Suc not_le le_Suc_eq)

lemma apply_for_device_times_ready:
  "ready m \<Longrightarrow> device_index m < num_devices m \<Longrightarrow>
   apply_for_device_times K E opt n m =
     (map (\<lambda>k. (OK, Some ((device_index m + k) mod num_devices m))) [0..<n],
      m\<lparr>device_index := (device_index m + n) mod num_devices m\<rparr>)"
proof (induction n arbitrary: m)
  case 0
  then show ?case by simp
next
  case (Suc n)
  define m' where "m' = m\<lparr>device_index := Suc (device_index m) mod num_devices m\<rparr>"
  have step: "apply_for_device K E m opt = (OK, Some (device_index m), m', [])"
    unfolding m'_def using Suc.prems by (rule apply_for_device_ready)
  have r: "ready m'" and lt: "device_index m' < num_devices m'"
    using Suc.prems by (auto simp: m'_def)
  have nd: "num_devices m' = num_devices m"
    and di: "device_index m' = Suc (device_index m) mod num_devices m"
    by (simp_all add: m'_def)
  have ih: "apply_for_device_times K E opt n m' =
     (map (\<lambda>k. (OK, Some ((device_index m' + k) mod num_devices m'))) [0..<n],
      m'\<lparr>device_index := (device_index m' + n) mod num_devices m'\<rparr>)"
    using Suc.IH [OF r lt] .
  have idx: "(Suc (device_index m) mod num_devices m + k) mod num_devices m
      = (device_index m + Suc k) mod num_devices m" for k
    by (simp add: mod_add_left_eq)
  have l: "[0..<Suc n] = 0 # map Suc [0..<n]"
    by (simp add: upt_conv_Cons map_Suc_upt del: upt_Suc)
  have fin: "m'\<lparr>device_index := (device_index m' + n) mod num_devices m'\<rparr>
      = m\<lparr>device_index := (device_index m + Suc n) mod num_devices m\<rparr>"
    unfolding nd di idx by (simp add: m'_def)
  have mp: "map (\<lambda>k. (OK, Some ((device_index m' + k) mod num_devices m'))) [0..<n]
     = map (\<lambda>k. (OK, Some ((device_index m + k) mod num_devices m))) (map Suc [0..<n])"
    unfolding nd di idx by (simp add: o_def)
  have hd: "device_index m mod num_devices m = device_index m"
    using Suc.prems by simp
  have ih': "apply_for_device_times K E opt n m' =
     (map (\<lambda>k. (OK, Some ((device_index m + k) mod num_devices m))) (map Suc [0..<n]),
      m\<lparr>device_index := (device_index m + Suc n) mod num_devices m\<rparr>)"
    using ih unfolding fin mp .
  show ?case
    by (simp only: apply_for_device_times.simps step ih' l prod.case list.map add_0_right hd)
qed

lemma count_mod_upt:
  assumes "g < M"
  shows "count_list (map (\<lambda>k. Some (k mod M)) [0..<N]) (Some g)
           = N div M + (if g < N mod M then 1 else 0)"
proof (induction N)
  case 0
  then show ?case by simp
next
  case (Suc N)
  show ?case
  proof (cases "Suc (N mod M) = M")
    case True
    then have "Suc N mod M = 0" "Suc N div M = Suc (N div M)"
      by (simp_all add: mod_Suc div_Suc)
    with Suc True assms show ?thesis by auto
  next
    case False
    then have "Suc N mod M = Suc (N mod M)" "Suc N div M = N div M"
      by (simp_all add: mod_Suc div_Suc)
    with Suc False assms show ?thesis by auto
  qed
qed

lemma ceil_div_nat:
  "0 < M \<Longrightarrow> 0 < N mod M \<Longrightarrow> (N + M - 1) div M = Suc (N div M)" for M N :: nat
proof (rule div_nat_eqI)
  assume M: "0 < M" and r: "0 < N mod M"
  define q where "q = N div M"
  define x where "x = M * q"
  have lt: "N mod M < M" using M by simp
  have e: "N = x + N mod M" unfolding x_def q_def by simp
  have s1: "M * Suc q = x + M" and s2: "M * Suc (Suc q) = x + M + M"
    unfolding x_def by simp_all
  show "M * Suc (N div M) \<le> N + M - 1"
    unfolding q_def [symmetric] s1 using e r by linarith
  show "N + M - 1 < M * Suc (Suc (N div M))"
    unfolding q_def [symmetric] s2 using e lt M by linarith
qed

text \<open>
  C6. On a ready pool with \<open>M > 0\<close> active groups and the cursor at 0, \<open>N\<close> successive calls
  of \<open>apply_for_device\<close> all succeed, call \<open>k\<close> returns group \<open>k mod M\<close>, every group
  \<open>g < M\<close> is returned \<open>N div M\<close> times plus once more if \<open>g < N mod M\<close>, which is the floor
  or the ceiling of \<open>N / M\<close>, and the cursor ends at \<open>N mod M\<close> (so it is back at 0 after
  each full round).
\<close>

theorem apply_for_device_round_robin:
  assumes "ready m" and "device_index m = 0" and "num_devices m = M" and "0 < M"
  shows "fst (apply_for_device_times K E opt N m) = map (\<lambda>k. (OK, Some (k mod M))) [0..<N]
       \<and> (\<forall>g<M. count_list (map snd (fst (apply_for_device_times K E opt N m))) (Some g)
                  = N div M + (if g < N mod M then 1 else 0))
       \<and> (\<forall>g<M. count_list (map snd (fst (apply_for_device_times K E opt N m))) (Some g)
                  \<in> {N div M, (N + M - 1) div M})
       \<and> device_index (snd (apply_for_device_times K E opt N m)) = N mod M"
proof -
  have lt: "device_index m < num_devices m" using assms by simp
  have eq: "apply_for_device_times K E opt N m =
       (map (\<lambda>k. (OK, Some (k mod M))) [0..<N], m\<lparr>device_index := N mod M\<rparr>)"
    using apply_for_device_times_ready [OF assms(1) lt, of K E opt N] assms by simp
  have sn: "map snd (map (\<lambda>k. (OK, Some (k mod M))) [0..<N]) = map (\<lambda>k. Some (k mod M)) [0..<N]"
    by (simp add: o_def)
  have cnt: "count_list (map (\<lambda>k. Some (k mod M)) [0..<N]) (Some g)
               = N div M + (if g < N mod M then 1 else 0)" if "g < M" for g
    using that by (rule count_mod_upt)
  have fc: "N div M + (if g < N mod M then 1 else 0) \<in> {N div M, (N + M - 1) div M}" for g
  proof (cases "g < N mod M")
    case True
    then have "0 < N mod M" by simp
    then show ?thesis using True ceil_div_nat [OF assms(4)] by simp
  next
    case False
    then show ?thesis by simp
  qed
  show ?thesis
    unfolding eq fst_conv snd_conv sn using cnt fc by simp
qed

theorem apply_for_device_round_robin_witness:
  "ready ready_pool2 \<and> device_index ready_pool2 = 0 \<and> num_devices ready_pool2 = 2
   \<and> fst (apply_for_device_times example_consts (example_env None (\<lambda>k. create_eg_refused) (\<lambda>c i. 0)) 0 5 ready_pool2)
       = [(OK, Some 0), (OK, Some 1), (OK, Some 0), (OK, Some 1), (OK, Some 0)]
   \<and> count_list (map snd (fst (apply_for_device_times example_consts
         (example_env None (\<lambda>k. create_eg_refused) (\<lambda>c i. 0)) 0 5 ready_pool2))) (Some 1) = 2
   \<and> device_index (snd (apply_for_device_times example_consts
         (example_env None (\<lambda>k. create_eg_refused) (\<lambda>c i. 0)) 0 5 ready_pool2)) = 1"
proof -
  have r: "ready ready_pool2" and c: "device_index ready_pool2 = 0"
    and n: "num_devices ready_pool2 = 2"
    by (simp_all add: ready_pool2_def fresh_pool_def)
  have l: "[0..<5] = [0, 1, 2, 3, 4::nat]"
    by (simp add: upt_conv_Cons)
  show ?thesis
    using apply_for_device_round_robin [OF r c n, of example_consts
        "example_env None (\<lambda>k. create_eg_refused) (\<lambda>c i. 0)" 0 5] r c n
    by (simp add: l)
qed

section \<open>The copy routines copy\<close>

lemma bit_word_of_bytes:
  "bit (word_of_bytes bs :: 'a::len word) n \<longleftrightarrow>
     n < LENGTH('a) \<and> n div 8 < length bs \<and> bit (bs ! (n div 8)) (n mod 8)"
proof (induction bs arbitrary: n)
  case Nil
  then show ?case by simp
next
  case (Cons b bs)
  show ?case
  proof (cases "n < 8")
    case True
    then show ?thesis
      by (auto simp: bit_simps bit_or_iff dest: bit_imp_le_length)
  next
    case False
    then have d: "n div 8 = Suc ((n - 8) div 8)" and m: "n mod 8 = (n - 8) mod 8"
      by (simp_all add: le_div_geq le_mod_geq)
    have "\<not> bit (ucast b :: 'a word) n"
      using False by (auto simp: bit_simps dest: bit_imp_le_length)
    then show ?thesis
      using False Cons.IH [of "n - 8"] by (auto simp: bit_simps bit_or_iff d m)
  qed
qed

lemma byte_of_word_of_bytes:
  assumes "k < length bs" and "8 * length bs \<le> LENGTH('a::len)"
  shows "byte_of_word (word_of_bytes bs :: 'a word) k = bs ! k"
proof (rule bit_word_eqI)
  fix n assume n: "n < LENGTH(8)"
  then have n8: "n < 8" by simp
  have "8 * k + n < 8 * length bs" using assms(1) n8 by simp
  then have lt: "8 * k + n < LENGTH('a)" using assms(2) by simp
  have dv: "(8 * k + n) div 8 = k" and md: "(8 * k + n) mod 8 = n"
    using n8 by simp_all
  show "bit (byte_of_word (word_of_bytes bs :: 'a word) k) n \<longleftrightarrow> bit (bs ! k) n"
    unfolding byte_of_word_def
    using n8 lt assms(1) by (simp add: bit_simps bit_word_of_bytes dv md)
qed

lemma store_load_word:
  assumes "8 * n \<le> LENGTH('a::len)"
  shows "store_word m d n (load_word m s n :: 'a word) = std_memcpy m d s n"
proof
  fix x
  show "store_word m d n (load_word m s n :: 'a word) x = std_memcpy m d s n x"
  proof (cases "d \<le> x \<and> x < d + n")
    case True
    then have "x - d < n" by linarith
    then have k: "x - d < length (map (\<lambda>k. m (s + k)) [0..<n])" by simp
    have l: "8 * length (map (\<lambda>k. m (s + k)) [0..<n]) \<le> LENGTH('a)" using assms by simp
    have "byte_of_word (word_of_bytes (map (\<lambda>k. m (s + k)) [0..<n]) :: 'a word) (x - d)
            = map (\<lambda>k. m (s + k)) [0..<n] ! (x - d)"
      using k l by (rule byte_of_word_of_bytes)
    also have "\<dots> = m (s + (x - d))" using \<open>x - d < n\<close> by simp
    finally show ?thesis using True by (simp add: store_word_def load_word_def std_memcpy_def)
  next
    case False
    then show ?thesis by (auto simp: store_word_def std_memcpy_def)
  qed
qed

lemma std_memcpy_copied_on: "std_memcpy m d s n = copied_on m d s {0..<n}"
proof
  fix x
  have "(d \<le> x \<and> x < d + n) = (d \<le> x \<and> x - d < n)" by linarith
  then show "std_memcpy m d s n x = copied_on m d s {0..<n} x"
    by (simp add: std_memcpy_def copied_on_def)
qed

lemma std_memcpy_slice:
  assumes "no_overlap d s n" and "A \<subseteq> {0..<n}" and "off + len \<le> n"
  shows "std_memcpy (copied_on m d s A) (d + off) (s + off) len
           = copied_on m d s (A \<union> {off..<off + len})"
proof
  fix x
  show "std_memcpy (copied_on m d s A) (d + off) (s + off) len x
           = copied_on m d s (A \<union> {off..<off + len}) x"
  proof (cases "d + off \<le> x \<and> x < d + off + len")
    case True
    define y where "y = s + (x - d)"
    have y1: "s + off + (x - (d + off)) = y" using True by (simp add: y_def)
    have "s \<le> y" "y < s + n" using True assms(3) unfolding y_def by linarith+
    moreover have "y - d < n" if "y - d \<in> A" using that assms(2) by auto
    ultimately have "\<not> (d \<le> y \<and> y - d \<in> A)" using assms(1) unfolding no_overlap_def by fastforce
    then have "copied_on m d s A y = m y" by (auto simp: copied_on_def)
    moreover have "d \<le> x" "off \<le> x - d" "x - d < off + len" using True by linarith+
    ultimately have "copied_on m d s A y = m y" "copied_on m d s (A \<union> {off..<off + len}) x = m y"
      by (auto simp: copied_on_def y_def)
    moreover have "std_memcpy (copied_on m d s A) (d + off) (s + off) len x = copied_on m d s A y"
      using True by (simp add: std_memcpy_def y1)
    ultimately show ?thesis by simp
  next
    case False
    then have "\<not> (d \<le> x \<and> off \<le> x - d \<and> x - d < off + len)" by linarith
    then show ?thesis using False by (auto simp: std_memcpy_def copied_on_def)
  qed
qed

lemma std_memcpy_append:
  assumes "no_overlap d s (a + b)"
  shows "std_memcpy (std_memcpy m d s a) (d + a) (s + a) b = std_memcpy m d s (a + b)"
proof -
  have "std_memcpy (copied_on m d s {0..<a}) (d + a) (s + a) b = copied_on m d s ({0..<a} \<union> {a..<a + b})"
    using assms by (intro std_memcpy_slice) auto
  moreover have "{0..<a} \<union> {a..<a + b} = {0..<a + b}" by auto
  ultimately show ?thesis by (simp add: std_memcpy_copied_on)
qed

lemma no_overlap_shift:
  "no_overlap d s (a + b) \<Longrightarrow> no_overlap (d + a) (s + a) b"
  "no_overlap d s (a + b) \<Longrightarrow> no_overlap d s a"
  by (auto simp: no_overlap_def)

lemma memcpy_uint64_loop_eq:
  "no_overlap d s (8 * k) \<Longrightarrow> memcpy_uint64_loop m d s k = std_memcpy m d s (8 * k)"
proof (induction k arbitrary: m d s)
  case 0
  then show ?case by (auto simp: std_memcpy_def fun_eq_iff)
next
  case (Suc k)
  have no: "no_overlap d s (8 + 8 * k)" using Suc.prems by simp
  have sl: "store_word m d 8 (load_word m s 8 :: 64 word) = std_memcpy m d s 8"
    by (rule store_load_word) simp
  have "memcpy_uint64_loop m d s (Suc k) = memcpy_uint64_loop (std_memcpy m d s 8) (d + 8) (s + 8) k"
    by (simp add: sl)
  also have "\<dots> = std_memcpy (std_memcpy m d s 8) (d + 8) (s + 8) (8 * k)"
    using no_overlap_shift(1) [OF no] by (rule Suc.IH)
  also have "\<dots> = std_memcpy m d s (8 + 8 * k)"
    using no by (rule std_memcpy_append)
  finally show ?case by simp
qed

lemma memcpy_uint32_loop_eq:
  "no_overlap d s (4 * k) \<Longrightarrow> memcpy_uint32_loop m d s k = std_memcpy m d s (4 * k)"
proof (induction k arbitrary: m d s)
  case 0
  then show ?case by (auto simp: std_memcpy_def fun_eq_iff)
next
  case (Suc k)
  have no: "no_overlap d s (4 + 4 * k)" using Suc.prems by simp
  have sl: "store_word m d 4 (load_word m s 4 :: 32 word) = std_memcpy m d s 4"
    by (rule store_load_word) simp
  have "memcpy_uint32_loop m d s (Suc k) = memcpy_uint32_loop (std_memcpy m d s 4) (d + 4) (s + 4) k"
    by (simp add: sl)
  also have "\<dots> = std_memcpy (std_memcpy m d s 4) (d + 4) (s + 4) (4 * k)"
    using no_overlap_shift(1) [OF no] by (rule Suc.IH)
  also have "\<dots> = std_memcpy m d s (4 + 4 * k)"
    using no by (rule std_memcpy_append)
  finally show ?case by simp
qed

lemma byte_assign: "m(d := m s) = std_memcpy m d s 1"
  by (auto simp: std_memcpy_def)

lemma std_copy_n_eq:
  "no_overlap d s n \<Longrightarrow> std_copy_n m s n d = std_memcpy m d s n"
proof (induction n arbitrary: m d s)
  case 0
  then show ?case by (auto simp: std_memcpy_def fun_eq_iff)
next
  case (Suc n)
  have no: "no_overlap d s (1 + n)" using Suc.prems by simp
  have "std_copy_n m s (Suc n) d = std_copy_n (std_memcpy m d s 1) (s + 1) n (d + 1)"
    by (simp add: byte_assign)
  also have "\<dots> = std_memcpy (std_memcpy m d s 1) (d + 1) (s + 1) n"
    using no_overlap_shift(1) [OF no] by (rule Suc.IH)
  also have "\<dots> = std_memcpy m d s (1 + n)"
    using no by (rule std_memcpy_append)
  finally show ?case by simp
qed

lemma plain_copy_eq:
  "no_overlap d s n \<Longrightarrow> plain_copy m d s n = std_memcpy m d s n"
proof (induction n arbitrary: m d s)
  case 0
  then show ?case by (auto simp: std_memcpy_def fun_eq_iff)
next
  case (Suc n)
  have no: "no_overlap d s (1 + n)" using Suc.prems by simp
  have "plain_copy m d s (Suc n) = plain_copy (std_memcpy m d s 1) (d + 1) (s + 1) n"
    by (simp add: byte_assign)
  also have "\<dots> = std_memcpy (std_memcpy m d s 1) (d + 1) (s + 1) n"
    using no_overlap_shift(1) [OF no] by (rule Suc.IH)
  also have "\<dots> = std_memcpy m d s (1 + n)"
    using no by (rule std_memcpy_append)
  finally show ?case by simp
qed

lemma call_memcpy_eq:
  assumes "no_overlap d s n" and "word_bytes f dvd n"
  shows "call_memcpy f m d s n = std_memcpy m d s n"
proof (cases f)
  case Std_memcpy
  then show ?thesis by simp
next
  case Memcpy_uint64
  then obtain k where n: "n = 8 * k" using assms(2) by (auto simp: word_bytes_def)
  show ?thesis using assms(1) unfolding n Memcpy_uint64
    by (simp add: memcpy_uint64_def memcpy_uint64_loop_eq)
next
  case Memcpy_uint32
  then obtain k where n: "n = 4 * k" using assms(2) by (auto simp: word_bytes_def)
  show ?thesis using assms(1) unfolding n Memcpy_uint32
    by (simp add: memcpy_uint32_def memcpy_uint32_loop_eq)
qed

lemma copied_on_empty: "copied_on m d s {} = m"
  by (simp add: copied_on_def)

lemma no_overlap_sub:
  "no_overlap d s n \<Longrightarrow> off + len \<le> n \<Longrightarrow> no_overlap (d + off) (s + off) len"
  by (auto simp: no_overlap_def)

lemma copy_then_rest:
  assumes "no_overlap d s T" and "c \<le> T" and "word_bytes f dvd c"
  shows "(let m1 = call_memcpy f m d s c
          in if c \<noteq> T then std_memcpy m1 (d + c) (s + c) (T - c) else m1) = std_memcpy m d s T"
proof -
  have T: "c + (T - c) = T" using assms(2) by simp
  have no: "no_overlap d s (c + (T - c))" using assms(1) T by simp
  have m1: "call_memcpy f m d s c = std_memcpy m d s c"
    using no_overlap_shift(2) [OF no] assms(3) by (rule call_memcpy_eq)
  have "std_memcpy (std_memcpy m d s c) (d + c) (s + c) (T - c) = std_memcpy m d s (c + (T - c))"
    using no by (rule std_memcpy_append)
  then show ?thesis
    unfolding Let_def m1 T by simp
qed

lemma slice_step:
  assumes no: "no_overlap d s (7 * S + L)" and A: "A \<subseteq> {0..<7 * S + L}" and idx: "idx < 8"
    and fS: "word_bytes f dvd S" and fL: "word_bytes fl dvd L"
  shows "call_memcpy (((replicate 8 f)[7 := fl]) ! idx) (copied_on m d s A)
           (d + nat (int idx * int S)) (s + nat (int idx * int S))
           (nat (((replicate 8 (int S))[7 := int L]) ! idx))
         = copied_on m d s (A \<union> slice_region S L idx)"
proof -
  define len where "len = (if idx = 7 then L else S)"
  define g where "g = (if idx = 7 then fl else f)"
  have off: "nat (int idx * int S) = idx * S"
    by (simp add: nat_mult_distrib)
  have vs: "nat (((replicate 8 (int S))[7 := int L]) ! idx) = len"
    using idx by (auto simp: len_def nth_list_update)
  have vf: "((replicate 8 f)[7 := fl]) ! idx = g"
    using idx by (auto simp: g_def nth_list_update)
  have le: "idx * S + len \<le> 7 * S + L"
  proof (cases "idx = 7")
    case True
    then show ?thesis by (simp add: len_def)
  next
    case False
    then have "idx \<le> 6" using idx by simp
    then have "idx * S \<le> 6 * S" by (rule mult_le_mono1)
    then have "idx * S + S \<le> 7 * S + L" by linarith
    then show ?thesis using False by (simp only: len_def if_False)
  qed
  have dv: "word_bytes g dvd len" using fS fL by (simp add: g_def len_def)
  have "call_memcpy g (copied_on m d s A) (d + idx * S) (s + idx * S) len
          = std_memcpy (copied_on m d s A) (d + idx * S) (s + idx * S) len"
    using no_overlap_sub [OF no le] dv by (rule call_memcpy_eq)
  also have "\<dots> = copied_on m d s (A \<union> {idx * S..<idx * S + len})"
    using no A le by (rule std_memcpy_slice)
  finally show ?thesis
    unfolding off vs vf by (simp add: slice_region_def len_def)
qed

lemma slice_region_sub:
  "idx < 8 \<Longrightarrow> slice_region S L idx \<subseteq> {0..<7 * S + L}"
proof -
  assume idx: "idx < 8"
  show ?thesis
  proof (cases "idx = 7")
    case True
    then show ?thesis by (auto simp: slice_region_def)
  next
    case False
    then have "idx \<le> 6" using idx by simp
    then have "idx * S \<le> 6 * S" by (rule mult_le_mono1)
    then have "idx * S + S \<le> 7 * S + L" by linarith
    then show ?thesis using False by (auto simp only: slice_region_def if_False atLeastLessThan_iff)
  qed
qed

lemma slices_fold:
  assumes no: "no_overlap d s (7 * S + L)" and fS: "word_bytes f dvd S" and fL: "word_bytes fl dvd L"
  shows "A \<subseteq> {0..<7 * S + L} \<Longrightarrow> \<forall>idx \<in> set xs. idx < 8 \<Longrightarrow>
     foldl (\<lambda>m' idx.
              let offset = nat (int idx * int S) in
                call_memcpy (((replicate 8 f)[7 := fl]) ! idx) m' (d + offset) (s + offset)
                  (nat (((replicate 8 (int S))[7 := int L]) ! idx)))
       (copied_on m d s A) xs
     = copied_on m d s (A \<union> (\<Union>idx \<in> set xs. slice_region S L idx))"
proof (induction xs arbitrary: A)
  case Nil
  then show ?case by simp
next
  case (Cons x xs)
  have x: "x < 8" using Cons.prems(2) by simp
  have A': "A \<union> slice_region S L x \<subseteq> {0..<7 * S + L}"
    using Cons.prems(1) slice_region_sub [OF x] by blast
  have rest: "\<forall>idx \<in> set xs. idx < 8" using Cons.prems(2) by simp
  have un: "A \<union> slice_region S L x \<union> (\<Union>idx \<in> set xs. slice_region S L idx)
          = A \<union> (\<Union>idx \<in> set (x # xs). slice_region S L idx)"
    by auto
  show ?case
    unfolding foldl_Cons Let_def
    using slice_step [OF no Cons.prems(1) x fS fL, of m] Cons.IH [OF A' rest, unfolded Let_def]
    by (simp only: un)
qed

lemma shards_fold:
  assumes no: "no_overlap d s (7 * S + L)" and fS: "word_bytes f dvd S" and fL: "word_bytes fl dvd L"
  shows "A \<subseteq> {0..<7 * S + L} \<Longrightarrow> \<forall>(b, e) \<in> set shards. e \<le> 8 \<Longrightarrow>
     foldl (\<lambda>m' (b, e). memcpy_shard d s (int S) ((replicate 8 f)[7 := fl])
                           ((replicate 8 (int S))[7 := int L]) b e m')
       (copied_on m d s A) shards
     = copied_on m d s (A \<union> (\<Union>(b, e) \<in> set shards. \<Union>idx \<in> {b..<e}. slice_region S L idx))"
proof (induction shards arbitrary: A)
  case Nil
  then show ?case by simp
next
  case (Cons sh shards)
  obtain b e where sh: "sh = (b, e)" by (cases sh)
  have e: "e \<le> 8" using Cons.prems(2) sh by simp
  then have xs: "\<forall>idx \<in> set [b..<e]. idx < 8" by simp
  define A' where "A' = A \<union> (\<Union>idx \<in> set [b..<e]. slice_region S L idx)"
  have step: "memcpy_shard d s (int S) ((replicate 8 f)[7 := fl])
                 ((replicate 8 (int S))[7 := int L]) b e (copied_on m d s A) = copied_on m d s A'"
    unfolding memcpy_shard_def A'_def
    using slices_fold [OF no fS fL Cons.prems(1) xs] .
  have A'sub: "A' \<subseteq> {0..<7 * S + L}"
    unfolding A'_def using Cons.prems(1) slice_region_sub xs by blast
  have rest: "\<forall>(b, e) \<in> set shards. e \<le> 8" using Cons.prems(2) by simp
  have un: "A' \<union> (\<Union>(b, e) \<in> set shards. \<Union>idx \<in> {b..<e}. slice_region S L idx)
          = A \<union> (\<Union>(b, e) \<in> set (sh # shards). \<Union>idx \<in> {b..<e}. slice_region S L idx)"
    unfolding A'_def sh by auto
  show ?case
    unfolding foldl_Cons sh prod.case step
    using Cons.IH [OF A'sub rest] by (simp only: un sh)
qed

lemma slices_tile:
  assumes "shards_cover shards 8"
  shows "(\<Union>(b, e) \<in> set shards. \<Union>idx \<in> {b..<e}. slice_region S L idx) = {0..<7 * S + L}"
proof (rule equalityI; rule subsetI)
  fix x assume "x \<in> (\<Union>(b, e) \<in> set shards. \<Union>idx \<in> {b..<e}. slice_region S L idx)"
  then obtain b e idx where "(b, e) \<in> set shards" "idx \<in> {b..<e}" "x \<in> slice_region S L idx"
    by auto
  moreover have "e \<le> 8" using assms calculation(1) by (auto simp: shards_cover_def)
  ultimately have "idx < 8" by simp
  then show "x \<in> {0..<7 * S + L}"
    using slice_region_sub \<open>x \<in> slice_region S L idx\<close> by blast
next
  fix x assume x: "x \<in> {0..<7 * S + L}"
  define idx where "idx = (if x < 7 * S then x div S else 7)"
  have S: "0 < S" if "x < 7 * S" using that by (cases S) auto
  have i8: "idx < 8"
  proof (cases "x < 7 * S")
    case True
    then have "x div S < 7" using S [OF True] by (simp add: less_mult_imp_div_less mult.commute)
    then show ?thesis using True by (simp add: idx_def)
  next
    case False
    then show ?thesis by (simp add: idx_def)
  qed
  have mem: "x \<in> slice_region S L idx"
  proof (cases "x < 7 * S")
    case True
    have i: "idx = x div S" using True by (simp add: idx_def)
    have "idx < 7" using True S [OF True] by (simp add: i less_mult_imp_div_less mult.commute)
    moreover have "x div S * S \<le> x" by simp
    moreover have "x < x div S * S + S"
      using S [OF True] by (metis add.commute div_mult_mod_eq mod_less_divisor add_less_cancel_left mult.commute)
    ultimately show ?thesis by (simp add: slice_region_def i)
  next
    case False
    then show ?thesis using x by (simp add: idx_def slice_region_def)
  qed
  obtain b e where "(b, e) \<in> set shards" "b \<le> idx" "idx < e"
    using assms i8 by (auto simp: shards_cover_def)
  then show "x \<in> (\<Union>(b, e) \<in> set shards. \<Union>idx \<in> {b..<e}. slice_region S L idx)"
    using mem by force
qed

lemma parallel_slices:
  assumes no: "no_overlap d s (7 * S + L)" and fS: "word_bytes f dvd S" and fL: "word_bytes fl dvd L"
    and cover: "shards_cover shards 8"
  shows "ParallelFor shards (memcpy_shard d s (int S) ((replicate 8 f)[7 := fl])
                             ((replicate 8 (int S))[7 := int L])) m
         = std_memcpy m d s (7 * S + L)"
proof -
  have e: "\<forall>(b, e) \<in> set shards. e \<le> 8" using cover by (simp add: shards_cover_def)
  have "ParallelFor shards (memcpy_shard d s (int S) ((replicate 8 f)[7 := fl])
                             ((replicate 8 (int S))[7 := int L])) (copied_on m d s {})
     = copied_on m d s ({} \<union> (\<Union>(b, e) \<in> set shards. \<Union>idx \<in> {b..<e}. slice_region S L idx))"
    unfolding ParallelFor_def
    using shards_fold [OF no fS fL, of "{}" shards m] e by simp
  then show ?thesis
    unfolding copied_on_empty slices_tile [OF cover] by (simp add: std_memcpy_copied_on)
qed

lemma sliced_copy:
  fixes a total :: int
  assumes a: "0 < a" and wf: "word_bytes f = nat a" and tot: "0 \<le> total"
    and no: "no_overlap d s (nat total)" and cover: "shards_cover shards 8"
  defines "ss \<equiv> total div 8 - (total div 8) mod a"
  defines "lst \<equiv> total - ss * 7"
  shows "ParallelFor shards
           (memcpy_shard d s ss
              (if lst mod a \<noteq> 0 then (replicate 8 f)[7 := Std_memcpy] else replicate 8 f)
              ((replicate 8 ss)[7 := lst])) m
         = std_memcpy m d s (nat total)"
proof -
  have q: "0 \<le> total div 8" using tot by simp
  have "(total div 8) mod a \<le> total div 8"
    using q a by (simp add: zmod_le_nonneg_dividend)
  then have ss0: "0 \<le> ss" by (simp add: ss_def)
  have "0 \<le> (total div 8) mod a" using a by simp
  then have "ss \<le> total div 8" by (simp add: ss_def)
  moreover have "total - total mod 8 = 8 * (total div 8)" by (rule minus_mod_eq_mult_div)
  moreover have "0 \<le> total mod 8" by simp
  ultimately have "8 * ss \<le> total" by linarith
  then have l0: "0 \<le> lst" using ss0 by (simp add: lst_def)
  have dss: "a dvd ss" unfolding ss_def by (simp add: dvd_minus_mod)
  define S where "S = nat ss"
  define L where "L = nat lst"
  have iS: "ss = int S" and iL: "lst = int L" using ss0 l0 by (simp_all add: S_def L_def)
  have T: "nat total = 7 * S + L"
    using iS iL by (simp add: lst_def)
  define fl where "fl = (if lst mod a \<noteq> 0 then Std_memcpy else f)"
  have vf: "(if lst mod a \<noteq> 0 then (replicate 8 f)[7 := Std_memcpy] else replicate 8 f)
              = (replicate 8 f)[7 := fl]"
  proof (cases "lst mod a \<noteq> 0")
    case True
    then show ?thesis by (simp add: fl_def)
  next
    case False
    have "(replicate 8 f)[7 := f] = replicate 8 f"
      using list_update_id [of "replicate 8 f" 7] by simp
    then show ?thesis using False by (simp add: fl_def)
  qed
  have fS: "word_bytes f dvd S"
    unfolding wf S_def using dss a ss0 by (simp add: nat_dvd_iff)
  have fL: "word_bytes fl dvd L"
  proof (cases "lst mod a \<noteq> 0")
    case True
    then show ?thesis by (simp add: fl_def word_bytes_def)
  next
    case False
    then have "a dvd lst" by (simp add: dvd_eq_mod_eq_0)
    then show ?thesis using False a l0 by (simp add: fl_def wf L_def nat_dvd_iff)
  qed
  have main: "ParallelFor shards
           (memcpy_shard d s (int S) ((replicate 8 f)[7 := fl]) ((replicate 8 (int S))[7 := int L])) m
         = std_memcpy m d s (7 * S + L)"
    using no [unfolded T] fS fL cover by (rule parallel_slices)
  show ?thesis
    unfolding vf using main by (simp only: iS iL T)
qed

lemma aligned_prefix:
  fixes a total :: int
  assumes a: "0 < a" and wf: "word_bytes f = nat a" and tot: "0 \<le> total"
    and no: "no_overlap d s (nat total)"
  shows "(let m1 = call_memcpy f m d s (nat (total div a * a))
          in if total div a * a \<noteq> total
             then std_memcpy m1 (d + nat (total div a * a)) (s + nat (total div a * a))
                    (nat (total - total div a * a))
             else m1) = std_memcpy m d s (nat total)"
proof -
  define c where "c = nat (total div a * a)"
  have q: "0 \<le> total div a" using tot a by (simp add: pos_imp_zdiv_nonneg_iff)
  have "total - total mod a = total div a * a" by (rule minus_mod_eq_div_mult)
  moreover have "0 \<le> total mod a" using a by simp
  ultimately have le: "total div a * a \<le> total" by linarith
  have c0: "0 \<le> total div a * a" using q a by simp
  have cT: "c \<le> nat total" unfolding c_def using le by simp
  have dv: "word_bytes f dvd c"
    unfolding wf c_def using q a by (simp add: nat_mult_distrib)
  have ne: "(total div a * a \<noteq> total) = (c \<noteq> nat total)"
    unfolding c_def using c0 tot by (simp add: eq_nat_nat_iff)
  have rest: "nat (total - total div a * a) = nat total - c"
    unfolding c_def using c0 le by (simp add: nat_diff_distrib)
  show ?thesis
    unfolding c_def [symmetric] ne rest using no cT dv by (rule copy_then_rest)
qed

lemma fast_memcpy_std:
  assumes tot: "0 \<le> total_size" and no: "no_overlap d s (nat total_size)"
    and pool: "\<forall>shards. pool = Some shards \<longrightarrow> shards_cover shards 8"
  shows "fast_memcpy pool m d s total_size = std_memcpy m d s (nat total_size)"
proof (cases "total_size < 1024")
  case True
  then show ?thesis
    using std_copy_n_eq [OF no] by (simp add: fast_memcpy_def)
next
  case False
  note big = False
  have w8: "word_bytes Memcpy_uint64 = nat 8" and w4: "word_bytes Memcpy_uint32 = nat 4"
    and w1: "word_bytes Std_memcpy = nat 1"
    by (simp_all add: word_bytes_def)
  show ?thesis
  proof (cases "total_size \<le> 1024 * 1024 * 4 \<or> pool = None")
    case True
    note p8 = aligned_prefix [where a = 8 and f = Memcpy_uint64, OF _ w8 tot no, unfolded Let_def, of m]
    note p4 = aligned_prefix [where a = 4 and f = Memcpy_uint32, OF _ w4 tot no, unfolded Let_def, of m]
    show ?thesis
    proof (cases "IS_8BYTE_ALIGNED s \<and> IS_8BYTE_ALIGNED d")
      case a8: True
      show ?thesis
        unfolding fast_memcpy_def using big True a8 p8
        by (simp only: if_True if_False Let_def prod.case) simp
    next
      case na8: False
      show ?thesis
      proof (cases "IS_4BYTE_ALIGNED s \<and> IS_4BYTE_ALIGNED d")
        case a4: True
        show ?thesis
          unfolding fast_memcpy_def using big True na8 a4 p4
          by (simp only: if_True if_False Let_def prod.case) simp
      next
        case na4: False
        show ?thesis
          unfolding fast_memcpy_def using big True na8 na4
          by (simp only: if_True if_False Let_def prod.case call_memcpy.simps) simp
      qed
    qed
  next
    case False
    then obtain shards where sh: "pool = Some shards" by auto
    then have cover: "shards_cover shards 8" using pool by simp
    note s8 = sliced_copy [where a = 8 and f = Memcpy_uint64, OF _ w8 tot no cover, of m]
    note s4 = sliced_copy [where a = 4 and f = Memcpy_uint32, OF _ w4 tot no cover, of m]
    note s1 = sliced_copy [where a = 1 and f = Std_memcpy, OF _ w1 tot no cover, of m]
    show ?thesis
    proof (cases "IS_8BYTE_ALIGNED s \<and> IS_8BYTE_ALIGNED d")
      case a8: True
      show ?thesis
        unfolding fast_memcpy_def sh using big False a8 s8
        by (simp only: if_True if_False Let_def prod.case option.sel) (simp split: if_splits)
    next
      case na8: False
      show ?thesis
      proof (cases "IS_4BYTE_ALIGNED s \<and> IS_4BYTE_ALIGNED d")
        case a4: True
        show ?thesis
          unfolding fast_memcpy_def sh using big False na8 a4 s4
          by (simp only: if_True if_False Let_def prod.case option.sel) (simp split: if_splits)
      next
        case na4: False
        show ?thesis
          unfolding fast_memcpy_def sh using big False na8 na4 s1
          by (simp only: if_True if_False Let_def prod.case option.sel) (simp split: if_splits)
      qed
    qed
  qed
qed

section \<open>fast\_memcpy and tensor\_memcpy\<close>

lemma slice_regions_disjoint:
  assumes "i < 8" and "j < 8" and "i \<noteq> j"
  shows "slice_region S L i \<inter> slice_region S L j = {}"
proof -
  have d: "slice_region S L a \<inter> slice_region S L b = {}" if "a < b" "b < 8" for a b
  proof -
    have "Suc a \<le> b" using that by simp
    then have "Suc a * S \<le> b * S" by (rule mult_le_mono1)
    then have "a * S + S \<le> b * S" by simp
    moreover have "a \<noteq> 7" using that by simp
    ultimately show ?thesis by (auto simp: slice_region_def)
  qed
  show ?thesis
  proof (cases "i < j")
    case True
    then show ?thesis using d assms by simp
  next
    case False
    then have "j < i" using assms by simp
    then show ?thesis using d [of j i] assms by (simp add: Int_commute)
  qed
qed

lemma slices_union:
  "(\<Union>idx \<in> {0..<8}. slice_region S L idx) = {0..<7 * S + L}"
proof -
  have c: "shards_cover [(0, 8)] 8" by (simp add: shards_cover_def)
  show ?thesis using slices_tile [OF c, of S L] by simp
qed

lemma slice_size_facts:
  fixes a total_size :: int
  assumes a: "0 < a" and tot: "0 \<le> total_size"
  defines "ss \<equiv> fast_memcpy_slice_size total_size a"
  shows "0 \<le> ss" and "0 \<le> total_size - ss * 7" and "a dvd ss"
    and "nat total_size = 7 * nat ss + nat (total_size - ss * 7)"
proof -
  have q: "0 \<le> total_size div 8" using tot by simp
  have "(total_size div 8) mod a \<le> total_size div 8"
    using q a by (simp add: zmod_le_nonneg_dividend)
  then show ss0: "0 \<le> ss" by (simp add: ss_def fast_memcpy_slice_size_def)
  have "0 \<le> (total_size div 8) mod a" using a by simp
  then have "ss \<le> total_size div 8" by (simp add: ss_def fast_memcpy_slice_size_def)
  moreover have "total_size - total_size mod 8 = 8 * (total_size div 8)" by (rule minus_mod_eq_mult_div)
  moreover have "0 \<le> total_size mod 8" by simp
  ultimately have "8 * ss \<le> total_size" by linarith
  then show l0: "0 \<le> total_size - ss * 7" using ss0 by simp
  show "a dvd ss" unfolding ss_def fast_memcpy_slice_size_def by (simp add: dvd_minus_mod)
  show "nat total_size = 7 * nat ss + nat (total_size - ss * 7)"
    using ss0 l0 by linarith
qed

text \<open>
  C9. For a non-negative \<open>total_size\<close>, source and destination buffers of that size that do
  not overlap, and a thread pool (if there is one) whose shards are those of \<open>[0, 8)\<close>:
  \<open>fast_memcpy\<close> leaves the store that a plain byte-for-byte copy leaves, whichever
  branch runs; the first \<open>total_size\<close> destination bytes equal the source bytes and
  every other byte is unchanged. For each alignment the parallel branch can use, its
  eight slice sizes add up to \<open>total_size\<close>, and the slices cover the buffer with no gap
  and no overlap.
\<close>

theorem fast_memcpy_is_plain_copy:
  assumes "0 \<le> total_size" and "no_overlap dst src (nat total_size)"
    and "\<forall>shards. thread_pool = Some shards \<longrightarrow> shards_cover shards 8"
  shows "fast_memcpy thread_pool m dst src total_size = plain_copy m dst src (nat total_size)
       \<and> (\<forall>i < nat total_size. fast_memcpy thread_pool m dst src total_size (dst + i) = m (src + i))
       \<and> (\<forall>x. \<not> (dst \<le> x \<and> x < dst + nat total_size) \<longrightarrow>
              fast_memcpy thread_pool m dst src total_size x = m x)
       \<and> (\<forall>alignment \<in> {1, 4, 8}.
             let S = nat (fast_memcpy_slice_size total_size alignment);
                 L = nat (total_size - fast_memcpy_slice_size total_size alignment * 7)
             in 7 * S + L = nat total_size
                \<and> (\<Union>idx \<in> {0..<8}. slice_region S L idx) = {0..<nat total_size}
                \<and> (\<forall>i < 8. \<forall>j < 8. i \<noteq> j \<longrightarrow> slice_region S L i \<inter> slice_region S L j = {}))"
proof -
  have e: "fast_memcpy thread_pool m dst src total_size = std_memcpy m dst src (nat total_size)"
    using assms by (rule fast_memcpy_std)
  have p: "plain_copy m dst src (nat total_size) = std_memcpy m dst src (nat total_size)"
    using assms(2) by (rule plain_copy_eq)
  have inside: "std_memcpy m dst src (nat total_size) (dst + i) = m (src + i)"
    if "i < nat total_size" for i
    using that by (simp add: std_memcpy_def)
  have outside: "std_memcpy m dst src (nat total_size) x = m x"
    if "\<not> (dst \<le> x \<and> x < dst + nat total_size)" for x
    using that by (auto simp: std_memcpy_def)
  have sl: "let S = nat (fast_memcpy_slice_size total_size alignment);
                L = nat (total_size - fast_memcpy_slice_size total_size alignment * 7)
            in 7 * S + L = nat total_size
               \<and> (\<Union>idx \<in> {0..<8}. slice_region S L idx) = {0..<nat total_size}
               \<and> (\<forall>i < 8. \<forall>j < 8. i \<noteq> j \<longrightarrow> slice_region S L i \<inter> slice_region S L j = {})"
    if "alignment \<in> {1, 4, 8}" for alignment :: int
  proof -
    have a: "0 < alignment" using that by auto
    note f = slice_size_facts [OF a assms(1)]
    show ?thesis
      unfolding Let_def slices_union f(4) [symmetric]
      using slice_regions_disjoint by simp
  qed
  show ?thesis
    unfolding e p using inside outside sl by blast
qed

theorem fast_memcpy_is_plain_copy_witness:
  "(0::int) \<le> 3 \<and> no_overlap 16 0 (nat 3) \<and> shards_cover [(4, 8), (0, 4)] 8
   \<and> fast_memcpy (Some [(4, 8), (0, 4)]) example_mem 16 0 3 = plain_copy example_mem 16 0 (nat 3)
   \<and> fast_memcpy (Some [(4, 8), (0, 4)]) example_mem 16 0 3 (16 + 2) = 2
   \<and> fast_memcpy (Some [(4, 8), (0, 4)]) example_mem 16 0 3 19 = 19
   \<and> 7 * nat (fast_memcpy_slice_size 3 8) + nat (3 - fast_memcpy_slice_size 3 8 * 7) = nat 3"
proof -
  have h1: "(0::int) \<le> 3" by simp
  have h2: "no_overlap 16 0 (nat 3)" by (simp add: no_overlap_def)
  have h3: "\<forall>shards. Some [(4, 8), (0, 4)] = Some shards \<longrightarrow> shards_cover shards 8"
    by (auto simp: shards_cover_def)
  have c: "shards_cover [(4, 8), (0, 4)] 8" using h3 by simp
  note t = fast_memcpy_is_plain_copy [OF h1 h2 h3, of example_mem]
  have a: "fast_memcpy (Some [(4, 8), (0, 4)]) example_mem 16 0 3 = plain_copy example_mem 16 0 (nat 3)"
    using t by blast
  have ins: "\<forall>i < nat 3. fast_memcpy (Some [(4, 8), (0, 4)]) example_mem 16 0 3 (16 + i)
                 = example_mem (0 + i)"
    using t by blast
  have "(2::nat) < nat 3" by simp
  then have b: "fast_memcpy (Some [(4, 8), (0, 4)]) example_mem 16 0 3 (16 + 2) = example_mem (0 + 2)"
    using ins by blast
  have outs: "\<forall>x. \<not> (16 \<le> x \<and> x < 16 + nat 3) \<longrightarrow>
      fast_memcpy (Some [(4, 8), (0, 4)]) example_mem 16 0 3 x = example_mem x"
    using t by blast
  have "\<not> (16 \<le> (19::nat) \<and> (19::nat) < 16 + nat 3)" by simp
  then have o: "fast_memcpy (Some [(4, 8), (0, 4)]) example_mem 16 0 3 19 = example_mem 19"
    using outs by blast
  have sl: "\<forall>alignment \<in> {1, 4, 8}.
             let S = nat (fast_memcpy_slice_size 3 alignment);
                 L = nat (3 - fast_memcpy_slice_size 3 alignment * 7)
             in 7 * S + L = nat 3
                \<and> (\<Union>idx \<in> {0..<8}. slice_region S L idx) = {0..<nat 3}
                \<and> (\<forall>i < 8. \<forall>j < 8. i \<noteq> j \<longrightarrow> slice_region S L i \<inter> slice_region S L j = {})"
    using t by blast
  have s: "7 * nat (fast_memcpy_slice_size 3 8) + nat (3 - fast_memcpy_slice_size 3 8 * 7) = nat 3"
    using sl by (simp add: Let_def)
  have b': "fast_memcpy (Some [(4, 8), (0, 4)]) example_mem 16 0 3 (16 + 2) = 2"
    unfolding b by (simp add: example_mem_def)
  have o': "fast_memcpy (Some [(4, 8), (0, 4)]) example_mem 16 0 3 19 = 19"
    unfolding o by (simp add: example_mem_def)
  show ?thesis
    using h1 h2 c a b' o' s by blast
qed






section \<open>Teardown of the shared-memory buffers\<close>

lemma log_steps_foldl:
  "foldl (\<lambda>l x. log_step fails (f x) l) l0 xs
     = (fst l0 @ map f xs, snd l0 @ filter fails (map f xs))"
proof (induction xs arbitrary: l0)
  case Nil
  then show ?case by simp
next
  case (Cons x xs)
  show ?case
    by (simp add: Cons.IH) (simp add: log_step_def)
qed

lemma destructor_log:
  "snd (SharedMemoryManager_destructor fails s)
     = (unregister_steps (input_grpc_names s) @ munmap_steps (input_ptrs s) (input_sizes s)
          @ unlink_steps (input_names s)
          @ unregister_steps (output_grpc_names s) @ munmap_steps (output_ptrs s) (output_sizes s)
          @ unlink_steps (output_names s),
        filter fails
         (unregister_steps (input_grpc_names s) @ munmap_steps (input_ptrs s) (input_sizes s)
          @ unlink_steps (input_names s)
          @ unregister_steps (output_grpc_names s) @ munmap_steps (output_ptrs s) (output_sizes s)
          @ unlink_steps (output_names s)))"
  by (simp add: SharedMemoryManager_destructor_def Let_def nrt_shm_unmap_def log_steps_foldl
      unregister_steps_def munmap_steps_def unlink_steps_def)

lemma destructor_state:
  "fst (SharedMemoryManager_destructor fails s)
     = s\<lparr>input_grpc_names := [], input_ptrs := [], input_names := [],
         output_grpc_names := [], output_ptrs := [], output_names := []\<rparr>"
  by (simp add: SharedMemoryManager_destructor_def Let_def)

lemma init_vectors_parallel:
  "length ptrs = length names \<Longrightarrow> length sizes = length names \<Longrightarrow>
   init_vectors env k (names, ptrs, sizes, names) tensor_sizes = (st, v', t) \<Longrightarrow>
   vectors_parallel v'
   \<and> (st = OK \<longrightarrow> (\<exists>names' ptrs' sizes'. v' = (names', ptrs', sizes', names')
                      \<and> length ptrs' = length names' \<and> length sizes' = length names'))"
proof (induction tensor_sizes arbitrary: k names ptrs sizes st v' t)
  case Nil
  then show ?case by (auto simp: vectors_parallel_def)
next
  case (Cons sz tensor_sizes)
  show ?case
  proof (cases "gen_shm_name (env k) \<noteq> [] \<and> \<not> shm_open_fd (env k) < 0
       \<and> \<not> ftruncate_ret (env k) < 0 \<and> 0 \<noteq> mmap_ptr (env k) \<and> nrt_ok (shm_map_reply (env k))")
    case False
    then show ?thesis
      using Cons.prems
      by (auto simp: Let_def vectors_parallel_def sys_fail_status_def nrt_error_status_def
          split: if_splits)
  next
    case True
    define names1 where "names1 = names @ [gen_shm_name (env k)]"
    define ptrs1 where "ptrs1 = ptrs @ [mmap_ptr (env k)]"
    define sizes1 where "sizes1 = sizes @ [sz]"
    obtain st1 v2 t1 where r: "init_vectors env (Suc k) (names1, ptrs1, sizes1, names1) tensor_sizes = (st1, v2, t1)"
      by (cases "init_vectors env (Suc k) (names1, ptrs1, sizes1, names1) tensor_sizes") auto
    have res: "v' = v2" "st = st1"
      using Cons.prems(3) True r by (simp_all add: Let_def names1_def ptrs1_def sizes1_def)
    have l1: "length ptrs1 = length names1" and l2: "length sizes1 = length names1"
      using Cons.prems(1,2) by (simp_all add: names1_def ptrs1_def sizes1_def)
    show ?thesis unfolding res using l1 l2 r by (rule Cons.IH)
  qed
qed

lemma steps_length [simp]:
  "length (unregister_steps g) = length g" "length (munmap_steps p z) = length p"
  "length (unlink_steps n) = length n"
  by (simp_all add: unregister_steps_def munmap_steps_def unlink_steps_def)

lemma steps_nth:
  "i < length g \<Longrightarrow> unregister_steps g ! i = ShmUnmapRPC (g ! i)"
  "i < length p \<Longrightarrow> munmap_steps p z ! i = Munmap (p ! i) (z ! i)"
  "i < length n \<Longrightarrow> unlink_steps n ! i = ShmUnlink (n ! i)"
  by (simp_all add: unregister_steps_def munmap_steps_def unlink_steps_def)

lemma phases_nth:
  assumes "i < length g" and "i < length p" and "i < length n"
  shows "(pre @ unregister_steps g @ munmap_steps p z @ unlink_steps n @ post) ! (length pre + i)
           = ShmUnmapRPC (g ! i)"
    and "(pre @ unregister_steps g @ munmap_steps p z @ unlink_steps n @ post)
           ! (length pre + length g + i) = Munmap (p ! i) (z ! i)"
    and "(pre @ unregister_steps g @ munmap_steps p z @ unlink_steps n @ post)
           ! (length pre + length g + length p + i) = ShmUnlink (n ! i)"
  using assms by (simp_all add: nth_append steps_nth)

text \<open>
  C2 (as the code has it). The destructor walks the inputs first and the outputs second,
  and within each direction unregisters every buffer from the daemon, then unmaps every
  region, then unlinks every shared-memory object: six loops in that order, not three
  phases over both directions. So for each buffer its unregistration precedes its
  unmapping, which precedes its unlinking, but an input is unlinked before any output is
  unregistered. Every step is carried out whatever failed before it: the steps do not
  depend on which of them fail, the failures are exactly the failing steps in the same
  order, and the six vectors that drive the loops are empty afterwards.
\<close>

theorem SharedMemoryManager_destructor_order:
  "snd (SharedMemoryManager_destructor fails s)
     = (code_teardown_order s, filter fails (code_teardown_order s))
   \<and> fst (snd (SharedMemoryManager_destructor fails s))
     = fst (snd (SharedMemoryManager_destructor (\<lambda>ev. False) s))
   \<and> fst (SharedMemoryManager_destructor fails s)
     = s\<lparr>input_grpc_names := [], input_ptrs := [], input_names := [],
         output_grpc_names := [], output_ptrs := [], output_names := []\<rparr>
   \<and> (\<forall>idx. idx < length (input_grpc_names s) \<and> idx < length (input_ptrs s)
            \<and> idx < length (input_names s) \<longrightarrow>
          code_teardown_order s ! idx = ShmUnmapRPC (input_grpc_names s ! idx)
          \<and> code_teardown_order s ! (length (input_grpc_names s) + idx)
              = Munmap (input_ptrs s ! idx) (input_sizes s ! idx)
          \<and> code_teardown_order s ! (length (input_grpc_names s) + length (input_ptrs s) + idx)
              = ShmUnlink (input_names s ! idx)
          \<and> idx < length (input_grpc_names s) + idx
          \<and> length (input_grpc_names s) + idx
              < length (input_grpc_names s) + length (input_ptrs s) + idx)
   \<and> (\<forall>idx. idx < length (output_grpc_names s) \<and> idx < length (output_ptrs s)
            \<and> idx < length (output_names s) \<longrightarrow>
          (let off = length (input_grpc_names s) + length (input_ptrs s) + length (input_names s)
           in code_teardown_order s ! (off + idx) = ShmUnmapRPC (output_grpc_names s ! idx)
              \<and> code_teardown_order s ! (off + length (output_grpc_names s) + idx)
                  = Munmap (output_ptrs s ! idx) (output_sizes s ! idx)
              \<and> code_teardown_order s
                    ! (off + length (output_grpc_names s) + length (output_ptrs s) + idx)
                  = ShmUnlink (output_names s ! idx)
              \<and> off + idx < off + length (output_grpc_names s) + idx
              \<and> off + length (output_grpc_names s) + idx
                  < off + length (output_grpc_names s) + length (output_ptrs s) + idx))"
proof -
  have l: "snd (SharedMemoryManager_destructor f s)
             = (code_teardown_order s, filter f (code_teardown_order s))" for f
    unfolding code_teardown_order_def by (rule destructor_log)
  have st: "fst (SharedMemoryManager_destructor fails s)
     = s\<lparr>input_grpc_names := [], input_ptrs := [], input_names := [],
         output_grpc_names := [], output_ptrs := [], output_names := []\<rparr>"
    by (rule destructor_state)
  have inp: "code_teardown_order s ! idx = ShmUnmapRPC (input_grpc_names s ! idx)
          \<and> code_teardown_order s ! (length (input_grpc_names s) + idx)
              = Munmap (input_ptrs s ! idx) (input_sizes s ! idx)
          \<and> code_teardown_order s ! (length (input_grpc_names s) + length (input_ptrs s) + idx)
              = ShmUnlink (input_names s ! idx)
          \<and> idx < length (input_grpc_names s) + idx
          \<and> length (input_grpc_names s) + idx
              < length (input_grpc_names s) + length (input_ptrs s) + idx"
    if "idx < length (input_grpc_names s)" "idx < length (input_ptrs s)" "idx < length (input_names s)"
    for idx
    using phases_nth [OF that, of "[]" "input_sizes s"] that
    unfolding code_teardown_order_def by auto
  have outp: "(let off = length (input_grpc_names s) + length (input_ptrs s) + length (input_names s)
           in code_teardown_order s ! (off + idx) = ShmUnmapRPC (output_grpc_names s ! idx)
              \<and> code_teardown_order s ! (off + length (output_grpc_names s) + idx)
                  = Munmap (output_ptrs s ! idx) (output_sizes s ! idx)
              \<and> code_teardown_order s
                    ! (off + length (output_grpc_names s) + length (output_ptrs s) + idx)
                  = ShmUnlink (output_names s ! idx)
              \<and> off + idx < off + length (output_grpc_names s) + idx
              \<and> off + length (output_grpc_names s) + idx
                  < off + length (output_grpc_names s) + length (output_ptrs s) + idx)"
    if "idx < length (output_grpc_names s)" "idx < length (output_ptrs s)" "idx < length (output_names s)"
    for idx
  proof -
    define pre where "pre = unregister_steps (input_grpc_names s)
        @ munmap_steps (input_ptrs s) (input_sizes s) @ unlink_steps (input_names s)"
    have lp: "length pre = length (input_grpc_names s) + length (input_ptrs s) + length (input_names s)"
      by (simp add: pre_def)
    have c: "code_teardown_order s = pre @ unregister_steps (output_grpc_names s)
        @ munmap_steps (output_ptrs s) (output_sizes s) @ unlink_steps (output_names s) @ []"
      by (simp add: code_teardown_order_def pre_def)
    show ?thesis
      unfolding Let_def c lp [symmetric]
      using phases_nth [OF that, of pre "output_sizes s" "[]"] that by auto
  qed
  have c1: "snd (SharedMemoryManager_destructor fails s)
     = (code_teardown_order s, filter fails (code_teardown_order s))"
    by (rule l)
  have c2: "fst (snd (SharedMemoryManager_destructor fails s))
     = fst (snd (SharedMemoryManager_destructor (\<lambda>ev. False) s))"
    by (simp only: l fst_conv)
  show ?thesis
    using c1 c2 st inp outp by blast
qed


theorem SharedMemoryManager_destructor_order_witness:
  "snd (SharedMemoryManager_destructor (\<lambda>ev. ev = Munmap 100 4) example_shm)
     = ([ShmUnmapRPC ''/in'', Munmap 100 4, ShmUnlink ''/in'',
         ShmUnmapRPC ''/out'', Munmap 200 4, ShmUnlink ''/out''], [Munmap 100 4])
   \<and> (0::nat) < length (input_grpc_names example_shm) \<and> (0::nat) < length (input_ptrs example_shm)
   \<and> (0::nat) < length (input_names example_shm)
   \<and> code_teardown_order example_shm ! (length (input_grpc_names example_shm) + 0)
       = Munmap 100 4
   \<and> (0::nat) < length (output_grpc_names example_shm)
   \<and> (0::nat) < length (output_ptrs example_shm) \<and> (0::nat) < length (output_names example_shm)
   \<and> code_teardown_order example_shm ! 3 = ShmUnmapRPC ''/out''"
proof -
  note th = SharedMemoryManager_destructor_order [of "\<lambda>ev. ev = Munmap 100 4" example_shm]
  have e: "code_teardown_order example_shm
      = [ShmUnmapRPC ''/in'', Munmap 100 4, ShmUnlink ''/in'',
         ShmUnmapRPC ''/out'', Munmap 200 4, ShmUnlink ''/out'']"
    by (simp add: code_teardown_order_def example_shm_def unregister_steps_def munmap_steps_def
        unlink_steps_def)
  have a: "snd (SharedMemoryManager_destructor (\<lambda>ev. ev = Munmap 100 4) example_shm)
      = (code_teardown_order example_shm,
         filter (\<lambda>ev. ev = Munmap 100 4) (code_teardown_order example_shm))"
    using th by blast
  have li: "(0::nat) < length (input_grpc_names example_shm)
      \<and> (0::nat) < length (input_ptrs example_shm) \<and> (0::nat) < length (input_names example_shm)"
    and lo: "(0::nat) < length (output_grpc_names example_shm)
      \<and> (0::nat) < length (output_ptrs example_shm) \<and> (0::nat) < length (output_names example_shm)"
    by (simp_all add: example_shm_def)
  have b: "code_teardown_order example_shm ! (length (input_grpc_names example_shm) + 0)
      = Munmap (input_ptrs example_shm ! 0) (input_sizes example_shm ! 0)"
    using th li by blast
  have c: "code_teardown_order example_shm
      ! (length (input_grpc_names example_shm) + length (input_ptrs example_shm)
           + length (input_names example_shm) + 0)
      = ShmUnmapRPC (output_grpc_names example_shm ! 0)"
    using th lo unfolding Let_def by blast
  have b': "code_teardown_order example_shm ! (length (input_grpc_names example_shm) + 0)
      = Munmap 100 4"
    using b by (simp add: example_shm_def)
  have c': "code_teardown_order example_shm ! 3 = ShmUnmapRPC ''/out''"
    using c by (simp add: example_shm_def numeral_3_eq_3)
  have a': "snd (SharedMemoryManager_destructor (\<lambda>ev. ev = Munmap 100 4) example_shm)
     = ([ShmUnmapRPC ''/in'', Munmap 100 4, ShmUnlink ''/in'',
         ShmUnmapRPC ''/out'', Munmap 200 4, ShmUnlink ''/out''], [Munmap 100 4])"
    unfolding a e by simp
  show ?thesis
    using a' b' c' li lo by blast
qed

theorem SharedMemoryManager_destructor_not_three_phases_counterexample:
  "fst (snd (SharedMemoryManager_destructor (\<lambda>ev. False) example_shm))
     = [ShmUnmapRPC ''/in'', Munmap 100 4, ShmUnlink ''/in'',
        ShmUnmapRPC ''/out'', Munmap 200 4, ShmUnlink ''/out'']
   \<and> spec_teardown_order example_shm
     = [ShmUnmapRPC ''/out'', ShmUnmapRPC ''/in'', Munmap 200 4, Munmap 100 4,
        ShmUnlink ''/out'', ShmUnlink ''/in'']
   \<and> fst (snd (SharedMemoryManager_destructor (\<lambda>ev. False) example_shm))
       \<noteq> spec_teardown_order example_shm"
  by (simp add: SharedMemoryManager_destructor_def Let_def nrt_shm_unmap_def log_step_def
      spec_teardown_order_def example_shm_def unregister_steps_def munmap_steps_def
      unlink_steps_def)

section \<open>Loading streams the executable in order\<close>

lemma set_neff_chunk_twice:
  "set_neff_chunk oneof c (set_neff_chunk oneof c' request) = set_neff_chunk oneof c request"
  by (simp add: set_neff_chunk_def)

lemma chunks_of_drop:
  "0 < cs \<Longrightarrow> pos < length xs \<Longrightarrow>
   chunks_of cs (drop pos xs) = take cs (drop pos xs) # chunks_of cs (drop (pos + cs) xs)"
  by (subst chunks_of.simps) (simp add: add.commute)

lemma chunks_of_done: "length xs \<le> pos \<Longrightarrow> chunks_of cs (drop pos xs) = []"
  by (subst chunks_of.simps) simp

lemma load_chunks_written:
  assumes "0 < EXEC_MAX_CHUNK_SIZE K"
  shows "load_chunks K env executable pos request (k, t) =
     Some (snd (written (write_ok env) k
                  (map (\<lambda>c. set_neff_chunk (oneof_data env) c request)
                     (chunks_of (EXEC_MAX_CHUNK_SIZE K) (drop pos executable)))),
           k + length (fst (written (write_ok env) k
                  (map (\<lambda>c. set_neff_chunk (oneof_data env) c request)
                     (chunks_of (EXEC_MAX_CHUNK_SIZE K) (drop pos executable))))),
           t @ map Write (fst (written (write_ok env) k
                  (map (\<lambda>c. set_neff_chunk (oneof_data env) c request)
                     (chunks_of (EXEC_MAX_CHUNK_SIZE K) (drop pos executable))))))"
proof (induction "length executable - pos" arbitrary: pos request k t rule: less_induct)
  case less
  define cs where "cs = EXEC_MAX_CHUNK_SIZE K"
  have cs: "0 < cs" using assms by (simp add: cs_def)
  show ?case
  proof (cases "pos < length executable")
    case False
    then have "length executable \<le> pos" by simp
    then have "chunks_of cs (drop pos executable) = []"
      by (rule chunks_of_done)
    then show ?thesis
      using False by (subst load_chunks.simps) (simp add: cs_def)
  next
    case True
    define c where "c = take cs (drop pos executable)"
    define request' where "request' = set_neff_chunk (oneof_data env) c request"
    have ch: "chunks_of cs (drop pos executable) = c # chunks_of cs (drop (pos + cs) executable)"
      unfolding c_def using cs True by (rule chunks_of_drop)
    have mn: "take (min (length executable - pos) cs) (drop pos executable) = c"
      by (simp add: c_def min_def)
    have same: "(\<lambda>c. set_neff_chunk (oneof_data env) c request')
        = (\<lambda>c. set_neff_chunk (oneof_data env) c request)"
      by (simp add: request'_def set_neff_chunk_twice)
    have m: "length executable - (pos + cs) < length executable - pos"
      using True cs by linarith
    have ih: "load_chunks K env executable (pos + cs) request' (Suc k, t @ [Write request']) =
     Some (snd (written (write_ok env) (Suc k)
                  (map (\<lambda>c. set_neff_chunk (oneof_data env) c request)
                     (chunks_of cs (drop (pos + cs) executable)))),
           Suc k + length (fst (written (write_ok env) (Suc k)
                  (map (\<lambda>c. set_neff_chunk (oneof_data env) c request)
                     (chunks_of cs (drop (pos + cs) executable))))),
           (t @ [Write request']) @ map Write (fst (written (write_ok env) (Suc k)
                  (map (\<lambda>c. set_neff_chunk (oneof_data env) c request)
                     (chunks_of cs (drop (pos + cs) executable))))))"
      using less [OF m, of request' "Suc k" "t @ [Write request']"]
      unfolding cs_def [symmetric] same .
    have step: "load_chunks K env executable pos request (k, t) =
        (if \<not> write_ok env k then Some (False, (Suc k, t @ [Write request']))
         else load_chunks K env executable (pos + cs) request' (Suc k, t @ [Write request']))"
      using True
      by (subst load_chunks.simps)
         (simp add: Let_def writer_Write_def mn cs_def [symmetric] request'_def [symmetric])
    show ?thesis
      unfolding cs_def [symmetric] step ch ih
      by (simp add: request'_def)
  qed
qed


lemma written_all: "snd (written ok k ms) \<Longrightarrow> fst (written ok k ms) = ms"
  by (induction ms arbitrary: k) (auto split: if_splits)

lemma written_ok: "snd (written ok k ms) \<Longrightarrow> j < length ms \<Longrightarrow> ok (k + j)"
proof (induction ms arbitrary: k j)
  case Nil
  then show ?case by simp
next
  case (Cons m ms)
  have k: "ok k" and r: "snd (written ok (Suc k) ms)"
    using Cons.prems(1) by (auto split: if_splits)
  show ?case
  proof (cases j)
    case 0
    then show ?thesis using k by simp
  next
    case (Suc j')
    then have "j' < length ms" using Cons.prems(2) by simp
    then have "ok (Suc k + j')" using r by (rule Cons.IH [rotated])
    then show ?thesis using Suc by simp
  qed
qed

lemma written_fail:
  "\<not> snd (written ok k ms) \<Longrightarrow>
   \<exists>j<length ms. \<not> ok (k + j) \<and> (\<forall>i<j. ok (k + i)) \<and> fst (written ok k ms) = take (Suc j) ms"
proof (induction ms arbitrary: k)
  case Nil
  then show ?case by simp
next
  case (Cons m ms)
  show ?case
  proof (cases "ok k")
    case False
    then have "\<not> ok (k + 0) \<and> (\<forall>i<0. ok (k + i)) \<and> fst (written ok k (m # ms)) = take (Suc 0) (m # ms)"
      by simp
    then show ?thesis by blast
  next
    case True
    then have "\<not> snd (written ok (Suc k) ms)" using Cons.prems by simp
    then obtain j where j: "j < length ms" "\<not> ok (Suc k + j)" "\<forall>i<j. ok (Suc k + i)"
        "fst (written ok (Suc k) ms) = take (Suc j) ms"
      using Cons.IH by blast
    have a: "\<forall>i<Suc j. ok (k + i)"
    proof (intro allI impI)
      fix i assume "i < Suc j"
      then show "ok (k + i)" using True j(3) by (cases i) auto
    qed
    have "Suc j < length (m # ms) \<and> \<not> ok (k + Suc j) \<and> (\<forall>i<Suc j. ok (k + i))
        \<and> fst (written ok k (m # ms)) = take (Suc (Suc j)) (m # ms)"
      using True j a by simp
    then show ?thesis by blast
  qed
qed

lemma chunks_of_concat: "0 < cs \<Longrightarrow> concat (chunks_of cs xs) = xs"
proof (induction cs xs rule: chunks_of.induct)
  case (1 cs xs)
  show ?case
  proof (cases "xs = []")
    case True
    then show ?thesis by (subst chunks_of.simps) simp
  next
    case False
    then have "concat (chunks_of cs (drop cs xs)) = drop cs xs"
      using 1 by simp
    then show ?thesis
      using False 1(2) by (subst chunks_of.simps) simp
  qed
qed

lemma chunks_of_bounds: "c \<in> set (chunks_of cs xs) \<Longrightarrow> c \<noteq> [] \<and> length c \<le> cs"
proof (induction cs xs rule: chunks_of.induct)
  case (1 cs xs)
  show ?case
  proof (cases "cs = 0 \<or> xs = []")
    case True
    then have "chunks_of cs xs = []" by (subst chunks_of.simps) simp
    then show ?thesis using 1(2) by simp
  next
    case False
    then have e: "chunks_of cs xs = take cs xs # chunks_of cs (drop cs xs)"
      by (subst chunks_of.simps) simp
    show ?thesis
    proof (cases "c = take cs xs")
      case True
      then show ?thesis using False by auto
    next
      case nt: False
      then have "c \<in> set (chunks_of cs (drop cs xs))" using 1(2) e by simp
      then show ?thesis using 1(1) False by blast
    qed
  qed
qed

lemma load_messages_facts:
  "length (load_messages oneof cs eg executable timeout ninfer) = 3 + length (chunks_of cs executable)"
  "req_h_eg (load_messages oneof cs eg executable timeout ninfer ! 0) = Some eg"
  "req_neff_size (load_messages oneof cs eg executable timeout ninfer ! 1) = Some (length executable)"
  "req_model_params (load_messages oneof cs eg executable timeout ninfer ! 2) = Some (timeout, ninfer)"
  "i < length (chunks_of cs executable) \<Longrightarrow>
   req_neff_chunk (load_messages oneof cs eg executable timeout ninfer ! (3 + i))
     = Some (chunks_of cs executable ! i)"
  by (simp_all add: load_messages_def Let_def set_h_eg_def set_neff_size_def set_model_params_def
      set_neff_chunk_def numeral_3_eq_3)

lemma load_stream_written:
  assumes "0 < EXEC_MAX_CHUNK_SIZE K"
  shows "load_stream K env eg executable timeout ninfer =
     Some (let msgs = load_messages (oneof_data env) (EXEC_MAX_CHUNK_SIZE K) eg executable
                        timeout ninfer;
               ws = written (write_ok env) 0 msgs
           in
             if \<not> snd ws then (broken_stream, None, map Write (fst ws))
             else if \<not> writes_done_ok env then (broken_stream, None, map Write msgs @ [WritesDone])
             else if \<not> nrt_ok (finish_reply env)
             then (nrt_error_status ''load'' (finish_reply env), None,
                   map Write msgs @ [WritesDone, Finish])
             else (OK, Some (h_nn (finish_reply env)), map Write msgs @ [WritesDone, Finish]))"
proof -
  define m1 where "m1 = set_h_eg (oneof_data env) eg empty_load_request"
  define m2 where "m2 = set_neff_size (oneof_data env) (length executable) m1"
  define m3 where "m3 = set_model_params (oneof_data env) timeout ninfer m2"
  define rest where "rest = map (\<lambda>c. set_neff_chunk (oneof_data env) c m3)
      (chunks_of (EXEC_MAX_CHUNK_SIZE K) executable)"
  define ws where "ws = written (write_ok env) (Suc (Suc (Suc 0))) rest"
  have msgs: "load_messages (oneof_data env) (EXEC_MAX_CHUNK_SIZE K) eg executable timeout ninfer
      = m1 # m2 # m3 # rest"
    by (simp add: load_messages_def Let_def m1_def m2_def m3_def rest_def)
  have lc: "load_chunks K env executable 0 m3 (Suc (Suc (Suc 0)), [Write m1, Write m2, Write m3])
      = Some (snd ws, Suc (Suc (Suc 0)) + length (fst ws),
              [Write m1, Write m2, Write m3] @ map Write (fst ws))"
    using load_chunks_written [OF assms, of env executable 0 m3 "Suc (Suc (Suc 0))"
        "[Write m1, Write m2, Write m3]"]
    unfolding ws_def rest_def by simp
  have all: "snd ws \<Longrightarrow> fst ws = rest"
    unfolding ws_def by (rule written_all)
  show ?thesis
    unfolding msgs Let_def
    unfolding load_stream_def Let_def m1_def [symmetric] writer_Write_def fst_conv snd_conv
      m2_def [symmetric] m3_def [symmetric] append_Nil append_Cons lc
    using all
    by (simp add: ws_def [symmetric])
qed


lemma NeuronDevice_load_spec:
  assumes "0 < EXEC_MAX_CHUNK_SIZE K"
  shows "NeuronDevice_load K env d executable timeout ninfer
           = Some (spec_load K env d executable timeout ninfer)"
  unfolding NeuronDevice_load_def load_stream_written [OF assms] spec_load_def
  by (simp add: Let_def)

lemma spec_load_failure:
  assumes "spec_load K env d executable timeout ninfer = (st, nn_id, d', t)" and "st \<noteq> OK"
  shows "status_code st = Some INTERNAL \<and> nn_id = None \<and> d' = d"
  using assms
  by (auto simp: spec_load_def Let_def broken_stream_def nrt_error_status_def split: if_splits)

lemma spec_load_trace:
  assumes "spec_load K env d executable timeout ninfer = (st, nn_id, d', t)"
  defines "msgs \<equiv> load_messages (oneof_data env) (EXEC_MAX_CHUNK_SIZE K) (eg_id d) executable
                     timeout ninfer"
  shows "(\<exists>j<length msgs. \<not> write_ok env j \<and> (\<forall>i<j. write_ok env i)
              \<and> t = map Write (take (Suc j) msgs) \<and> st = broken_stream)
         \<or> ((\<forall>j<length msgs. write_ok env j) \<and> \<not> writes_done_ok env
              \<and> t = map Write msgs @ [WritesDone] \<and> st = broken_stream)
         \<or> ((\<forall>j<length msgs. write_ok env j) \<and> writes_done_ok env
              \<and> t = map Write msgs @ [WritesDone, Finish]
              \<and> (if nrt_ok (finish_reply env)
                  then st = OK \<and> nn_id = Some (h_nn (finish_reply env))
                       \<and> d' = d\<lparr>nn_id_set := insert (h_nn (finish_reply env)) (nn_id_set d)\<rparr>
                  else st = nrt_error_status ''load'' (finish_reply env)))"
proof (cases "snd (written (write_ok env) 0 msgs)")
  case False
  then obtain j where j: "j < length msgs" "\<not> write_ok env (0 + j)" "\<forall>i<j. write_ok env (0 + i)"
      "fst (written (write_ok env) 0 msgs) = take (Suc j) msgs"
    using written_fail [of "write_ok env" 0 msgs] by blast
  have "t = map Write (take (Suc j) msgs) \<and> st = broken_stream"
    using assms(1) False j(4) unfolding spec_load_def msgs_def [symmetric] Let_def by simp
  then show ?thesis using j by auto
next
  case True
  have all: "\<forall>j<length msgs. write_ok env j"
  proof (rule ccontr)
    assume "\<not> ?thesis"
    then obtain j where "j < length msgs" "\<not> write_ok env j" by blast
    then show False using written_ok [OF True, of j] by simp
  qed
  show ?thesis
    using assms(1) True all unfolding spec_load_def msgs_def [symmetric] Let_def
    by (auto split: if_splits)
qed


lemma RuntimeGRPC_load_spec:
  assumes "0 < EXEC_MAX_CHUNK_SIZE K"
  shows "RuntimeGRPC_load K env (eg_id d) executable timeout ninfer
           = Some (case spec_load K env d executable timeout ninfer of
                     (st, nn_id, d', t) \<Rightarrow> (st, nn_id, t))"
  unfolding RuntimeGRPC_load_def load_stream_written [OF assms] spec_load_def
  by (simp add: Let_def)

text \<open>
  C3. With a positive chunk size, \<open>load\<close> returns, and what it does is what the spec
  says: the messages are the handle, the byte count, the parameters and then the chunks,
  which are non-empty, at most \<open>EXEC_MAX_CHUNK_SIZE\<close> long and together the executable.
  Either some write fails, and then the stream holds the messages up to and including
  the first failing one and nothing else; or all are written and \<open>WritesDone\<close> fails; or
  the stream is closed and finished. Whenever the status is not OK it is an internal
  error, no model id is produced and the device is as before; when it is OK the id of
  the response is returned and added to the loaded set.
\<close>

theorem load_streams_in_order:
  assumes "0 < EXEC_MAX_CHUNK_SIZE K"
  shows
    "(let msgs = load_messages (oneof_data env) (EXEC_MAX_CHUNK_SIZE K) (eg_id d) executable
                   timeout ninfer;
          chunks = chunks_of (EXEC_MAX_CHUNK_SIZE K) executable
      in
        NeuronDevice_load K env d executable timeout ninfer
          = Some (spec_load K env d executable timeout ninfer)
        \<and> RuntimeGRPC_load K env (eg_id d) executable timeout ninfer
          = Some (case spec_load K env d executable timeout ninfer of
                    (st, nn_id, d', t) \<Rightarrow> (st, nn_id, t))
        \<and> (case spec_load K env d executable timeout ninfer of
              (st, nn_id, d', t) \<Rightarrow>
                (st \<noteq> OK \<longrightarrow> status_code st = Some INTERNAL \<and> nn_id = None \<and> d' = d)
                \<and> ((\<exists>j<length msgs. \<not> write_ok env j \<and> (\<forall>i<j. write_ok env i)
                        \<and> t = map Write (take (Suc j) msgs) \<and> st = broken_stream)
                   \<or> ((\<forall>j<length msgs. write_ok env j) \<and> \<not> writes_done_ok env
                        \<and> t = map Write msgs @ [WritesDone] \<and> st = broken_stream)
                   \<or> ((\<forall>j<length msgs. write_ok env j) \<and> writes_done_ok env
                        \<and> t = map Write msgs @ [WritesDone, Finish]
                        \<and> (if nrt_ok (finish_reply env)
                            then st = OK \<and> nn_id = Some (h_nn (finish_reply env))
                                 \<and> d' = d\<lparr>nn_id_set :=
                                            insert (h_nn (finish_reply env)) (nn_id_set d)\<rparr>
                            else st = nrt_error_status ''load'' (finish_reply env)))))
        \<and> length msgs = 3 + length chunks
        \<and> req_h_eg (msgs ! 0) = Some (eg_id d)
        \<and> req_neff_size (msgs ! 1) = Some (length executable)
        \<and> req_model_params (msgs ! 2) = Some (timeout, ninfer)
        \<and> (\<forall>i<length chunks. req_neff_chunk (msgs ! (3 + i)) = Some (chunks ! i))
        \<and> concat chunks = executable
        \<and> (\<forall>c\<in>set chunks. c \<noteq> [] \<and> length c \<le> EXEC_MAX_CHUNK_SIZE K))"
proof -
  obtain st nn_id d' t where r: "spec_load K env d executable timeout ninfer = (st, nn_id, d', t)"
    by (cases "spec_load K env d executable timeout ninfer") auto
  note a = NeuronDevice_load_spec [OF assms, of env d executable timeout ninfer]
  note b = RuntimeGRPC_load_spec [OF assms, of env d executable timeout ninfer]
  have c: "st \<noteq> OK \<longrightarrow> status_code st = Some INTERNAL \<and> nn_id = None \<and> d' = d"
    using spec_load_failure [OF r] by blast
  note e = spec_load_trace [OF r]
  note f = load_messages_facts [where oneof = "oneof_data env" and cs = "EXEC_MAX_CHUNK_SIZE K"
      and eg = "eg_id d" and executable = executable and timeout = timeout and ninfer = ninfer]
  note g = chunks_of_concat [OF assms, of executable]
  have h: "\<forall>c\<in>set (chunks_of (EXEC_MAX_CHUNK_SIZE K) executable).
      c \<noteq> [] \<and> length c \<le> EXEC_MAX_CHUNK_SIZE K"
    using chunks_of_bounds by blast
  have ch: "\<forall>i<length (chunks_of (EXEC_MAX_CHUNK_SIZE K) executable).
      req_neff_chunk (load_messages (oneof_data env) (EXEC_MAX_CHUNK_SIZE K) (eg_id d) executable
          timeout ninfer ! (3 + i)) = Some (chunks_of (EXEC_MAX_CHUNK_SIZE K) executable ! i)"
    using f(5) by blast
  show ?thesis
    unfolding Let_def a b r prod.case
    using c e f(1-4) ch g h by (intro conjI) (rule refl | assumption)+
qed

theorem load_streams_in_order_witness:
  "0 < EXEC_MAX_CHUNK_SIZE example_consts
   \<and> NeuronDevice_load example_consts third_chunk_fails group9 five_bytes 10 4
     = Some (Error INTERNAL ''neuron-rtd load failure - broken stream'' None, None, group9,
             [Write (empty_load_request\<lparr>req_h_eg := Some 9\<rparr>),
              Write (empty_load_request\<lparr>req_neff_size := Some 5\<rparr>),
              Write (empty_load_request\<lparr>req_model_params := Some (10, 4)\<rparr>),
              Write (empty_load_request\<lparr>req_neff_chunk := Some [1, 2]\<rparr>),
              Write (empty_load_request\<lparr>req_neff_chunk := Some [3, 4]\<rparr>),
              Write (empty_load_request\<lparr>req_neff_chunk := Some [5]\<rparr>)])"
proof -
  have pos: "0 < EXEC_MAX_CHUNK_SIZE example_consts"
    by (simp add: example_consts_def)
  have cs: "EXEC_MAX_CHUNK_SIZE example_consts = 2"
    by (simp add: example_consts_def)
  have ch: "chunks_of 2 five_bytes = [[1, 2], [3, 4], [5]]"
    by (simp add: chunks_of.simps five_bytes_def)
  have v: "spec_load example_consts third_chunk_fails group9 five_bytes 10 4
      = (Error INTERNAL ''neuron-rtd load failure - broken stream'' None, None, group9,
             [Write (empty_load_request\<lparr>req_h_eg := Some 9\<rparr>),
              Write (empty_load_request\<lparr>req_neff_size := Some 5\<rparr>),
              Write (empty_load_request\<lparr>req_model_params := Some (10, 4)\<rparr>),
              Write (empty_load_request\<lparr>req_neff_chunk := Some [1, 2]\<rparr>),
              Write (empty_load_request\<lparr>req_neff_chunk := Some [3, 4]\<rparr>),
              Write (empty_load_request\<lparr>req_neff_chunk := Some [5]\<rparr>)])"
    unfolding spec_load_def load_messages_def cs ch Let_def
    by (simp add: third_chunk_fails_def group9_def fresh_device_def five_bytes_def
        set_h_eg_def set_neff_size_def set_model_params_def set_neff_chunk_def broken_stream_def)
  have "NeuronDevice_load example_consts third_chunk_fails group9 five_bytes 10 4
      = Some (spec_load example_consts third_chunk_fails group9 five_bytes 10 4)"
    using load_streams_in_order [OF pos, of third_chunk_fails group9 five_bytes 10 4]
    unfolding Let_def by (rule conjunct1)
  then show ?thesis
    unfolding v using pos by simp
qed

section \<open>Numeric errors of an inference\<close>

lemma ignore_num_err_remaps:
  "grpc r = GRPC_OK \<Longrightarrow>
   ignore_num_err (r\<lparr>code := NERR_INFER_COMPLETED_WITH_NUM_ERR\<rparr>) = r\<lparr>code := NERR_OK\<rparr>"
  "grpc r = GRPC_OK \<Longrightarrow> ignore_num_err (r\<lparr>code := NERR_OK\<rparr>) = r\<lparr>code := NERR_OK\<rparr>"
  by (simp_all add: ignore_num_err_def)

lemma nrt_ok_remapped: "grpc r = GRPC_OK \<Longrightarrow> nrt_ok (r\<lparr>code := NERR_OK\<rparr>)"
  by (simp add: nrt_ok_def)

lemma NeuronDevice_infer_accepted:
  assumes ok: "nrt_ok (ignore_num_err (infer_reply env))"
    and st: "fst (start_model K (stop_reply env) (start_reply env) d nn_id) = OK"
    and bi: "build_ifmap (enabled shm) (input_names shm) (input_ptrs shm) in_names input_tensors m
               = Some (entries, m1)"
    and bo: "(if enabled shm then build_shm_ofmap (output_names shm) out_names else Some [])
               = Some shm_entries"
    and ao: "(if enabled shm
              then add_shm_ofmap (daemon_writes env m1) (output_ptrs shm) (output_sizes shm)
                     out_names (ignore_num_err (infer_reply env))
              else Some (ignore_num_err (infer_reply env))) = Some response'"
  shows "NeuronDevice_infer K cp env d m output_tensors nn_id in_names out_names input_tensors shm
     = (fst (copy_output_tensors cp (daemon_writes env m1) output_tensors response' out_names),
        fst (snd (start_model K (stop_reply env) (start_reply env) d nn_id)),
        snd (copy_output_tensors cp (daemon_writes env m1) output_tensors response' out_names),
        snd (snd (start_model K (stop_reply env) (start_reply env) d nn_id)),
        Some \<lparr>ifmap = entries, shm_ofmap = shm_entries, infer_h_nn = nn_id\<rparr>)"
proof -
  obtain s d1 t where sm: "start_model K (stop_reply env) (start_reply env) d nn_id = (s, d1, t)"
    by (cases "start_model K (stop_reply env) (start_reply env) d nn_id") auto
  have s: "s = OK" using st unfolding sm by simp
  show ?thesis
    unfolding NeuronDevice_infer_def sm s bi bo Let_def
    using ok ao by (simp add: split_beta)
qed

lemma RuntimeGRPC_infer_accepted:
  assumes ok: "nrt_ok (ignore_num_err (infer_reply env))"
    and bi: "build_ifmap (sm_enabled sm) (sm_input_paths sm) (sm_input_ptrs sm) in_names
               input_tensors m = Some (entries, m1)"
    and bo: "(if sm_enabled sm then build_shm_ofmap (sm_output_paths sm) out_names else Some [])
               = Some shm_entries"
    and ao: "(if sm_enabled sm
              then add_shm_ofmap (daemon_writes env m1) (sm_output_ptrs sm) (sm_output_sizes sm)
                     out_names (ignore_num_err (infer_reply env))
              else Some (ignore_num_err (infer_reply env))) = Some response'"
  shows "RuntimeGRPC_infer cp env m maybe_output_tensors nn_id in_names out_names input_tensors sm
     = (case maybe_output_tensors of
          None \<Rightarrow> (Returned OK, daemon_writes env m1,
                   Some \<lparr>ifmap = entries, shm_ofmap = shm_entries, infer_h_nn = nn_id\<rparr>)
        | Some outs \<Rightarrow>
            (fst (copy_output_tensors cp (daemon_writes env m1) outs response' out_names),
             snd (copy_output_tensors cp (daemon_writes env m1) outs response' out_names),
             Some \<lparr>ifmap = entries, shm_ofmap = shm_entries, infer_h_nn = nn_id\<rparr>))"
  unfolding RuntimeGRPC_infer_def bi bo Let_def
  using ok ao by (simp add: split_beta split: option.splits)

text \<open>
  C4. When the transport succeeds, \<open>infer\<close> and \<open>infer_wait\<close> of both classes do with a
  response whose code is \<open>NERR_INFER_COMPLETED_WITH_NUM_ERR\<close> exactly what they do with
  the same response under the code \<open>NERR_OK\<close>: same outcome, same device, same memory,
  same requests. The status check passes: \<open>infer_wait\<close> is the copy of the outputs of the
  response and returns what the copy returns; and an \<open>infer\<close> whose \<open>start_model\<close>
  returned OK and whose vectors are long enough sends its request and then is the copy
  of the outputs of the response (with the shared-memory outputs added to it when
  shared memory is on), on the memory the daemon left (\<open>RuntimeGRPC::infer\<close> without
  output tensors returns OK at that point).
\<close>

theorem num_err_treated_as_ok:
  assumes "grpc r = GRPC_OK"
  shows
    "NeuronDevice_infer K cp (env\<lparr>infer_reply := r\<lparr>code := NERR_INFER_COMPLETED_WITH_NUM_ERR\<rparr>\<rparr>)
         d m output_tensors nn_id in_names out_names input_tensors shm
       = NeuronDevice_infer K cp (env\<lparr>infer_reply := r\<lparr>code := NERR_OK\<rparr>\<rparr>)
           d m output_tensors nn_id in_names out_names input_tensors shm
     \<and> NeuronDevice_infer_wait cp (r\<lparr>code := NERR_INFER_COMPLETED_WITH_NUM_ERR\<rparr>)
           m output_tensors cookie out_names
       = NeuronDevice_infer_wait cp (r\<lparr>code := NERR_OK\<rparr>) m output_tensors cookie out_names
     \<and> NeuronDevice_infer_wait cp (r\<lparr>code := NERR_INFER_COMPLETED_WITH_NUM_ERR\<rparr>)
           m output_tensors cookie out_names
       = copy_output_tensors cp m output_tensors (r\<lparr>code := NERR_OK\<rparr>) out_names
     \<and> RuntimeGRPC_infer cp (env\<lparr>infer_reply := r\<lparr>code := NERR_INFER_COMPLETED_WITH_NUM_ERR\<rparr>\<rparr>)
           m maybe_output_tensors nn_id in_names out_names input_tensors sm
       = RuntimeGRPC_infer cp (env\<lparr>infer_reply := r\<lparr>code := NERR_OK\<rparr>\<rparr>)
           m maybe_output_tensors nn_id in_names out_names input_tensors sm
     \<and> RuntimeGRPC_infer_wait cp (r\<lparr>code := NERR_INFER_COMPLETED_WITH_NUM_ERR\<rparr>)
           m output_tensors cookie out_names
       = RuntimeGRPC_infer_wait cp (r\<lparr>code := NERR_OK\<rparr>) m output_tensors cookie out_names
     \<and> RuntimeGRPC_infer_wait cp (r\<lparr>code := NERR_INFER_COMPLETED_WITH_NUM_ERR\<rparr>)
           m output_tensors cookie out_names
       = copy_output_tensors cp m output_tensors (r\<lparr>code := NERR_OK\<rparr>) out_names
     \<and> (\<forall>entries m1 shm_entries response'.
           fst (start_model K (stop_reply env) (start_reply env) d nn_id) = OK
           \<and> build_ifmap (enabled shm) (input_names shm) (input_ptrs shm) in_names input_tensors m
               = Some (entries, m1)
           \<and> (if enabled shm then build_shm_ofmap (output_names shm) out_names else Some [])
               = Some shm_entries
           \<and> (if enabled shm
               then add_shm_ofmap (daemon_writes env m1) (output_ptrs shm) (output_sizes shm)
                      out_names (r\<lparr>code := NERR_OK\<rparr>)
               else Some (r\<lparr>code := NERR_OK\<rparr>)) = Some response'
           \<longrightarrow>
           NeuronDevice_infer K cp
               (env\<lparr>infer_reply := r\<lparr>code := NERR_INFER_COMPLETED_WITH_NUM_ERR\<rparr>\<rparr>)
               d m output_tensors nn_id in_names out_names input_tensors shm
             = (fst (copy_output_tensors cp (daemon_writes env m1) output_tensors response' out_names),
                fst (snd (start_model K (stop_reply env) (start_reply env) d nn_id)),
                snd (copy_output_tensors cp (daemon_writes env m1) output_tensors response' out_names),
                snd (snd (start_model K (stop_reply env) (start_reply env) d nn_id)),
                Some \<lparr>ifmap = entries, shm_ofmap = shm_entries, infer_h_nn = nn_id\<rparr>))
     \<and> (\<forall>entries m1 shm_entries response'.
           build_ifmap (sm_enabled sm) (sm_input_paths sm) (sm_input_ptrs sm) in_names
               input_tensors m = Some (entries, m1)
           \<and> (if sm_enabled sm then build_shm_ofmap (sm_output_paths sm) out_names else Some [])
               = Some shm_entries
           \<and> (if sm_enabled sm
               then add_shm_ofmap (daemon_writes env m1) (sm_output_ptrs sm) (sm_output_sizes sm)
                      out_names (r\<lparr>code := NERR_OK\<rparr>)
               else Some (r\<lparr>code := NERR_OK\<rparr>)) = Some response'
           \<longrightarrow>
           RuntimeGRPC_infer cp
               (env\<lparr>infer_reply := r\<lparr>code := NERR_INFER_COMPLETED_WITH_NUM_ERR\<rparr>\<rparr>)
               m maybe_output_tensors nn_id in_names out_names input_tensors sm
             = (case maybe_output_tensors of
                  None \<Rightarrow> (Returned OK, daemon_writes env m1,
                           Some \<lparr>ifmap = entries, shm_ofmap = shm_entries, infer_h_nn = nn_id\<rparr>)
                | Some outs \<Rightarrow>
                    (fst (copy_output_tensors cp (daemon_writes env m1) outs response' out_names),
                     snd (copy_output_tensors cp (daemon_writes env m1) outs response' out_names),
                     Some \<lparr>ifmap = entries, shm_ofmap = shm_entries, infer_h_nn = nn_id\<rparr>)))"
proof -
  note rm = ignore_num_err_remaps [OF assms]
  note ok = nrt_ok_remapped [OF assms]
  define env' where "env' = env\<lparr>infer_reply := r\<lparr>code := NERR_INFER_COMPLETED_WITH_NUM_ERR\<rparr>\<rparr>"
  have sel: "infer_reply (env\<lparr>infer_reply := x\<rparr>) = x"
    "stop_reply (env\<lparr>infer_reply := x\<rparr>) = stop_reply env"
    "start_reply (env\<lparr>infer_reply := x\<rparr>) = start_reply env"
    "daemon_writes (env\<lparr>infer_reply := x\<rparr>) = daemon_writes env" for x
    by simp_all
  have sel': "ignore_num_err (infer_reply env') = r\<lparr>code := NERR_OK\<rparr>"
    "stop_reply env' = stop_reply env" "start_reply env' = start_reply env"
    "daemon_writes env' = daemon_writes env"
    by (simp_all add: env'_def rm)
  have a: "NeuronDevice_infer K cp (env\<lparr>infer_reply := r\<lparr>code := NERR_INFER_COMPLETED_WITH_NUM_ERR\<rparr>\<rparr>)
         d m output_tensors nn_id in_names out_names input_tensors shm
       = NeuronDevice_infer K cp (env\<lparr>infer_reply := r\<lparr>code := NERR_OK\<rparr>\<rparr>)
           d m output_tensors nn_id in_names out_names input_tensors shm"
    unfolding NeuronDevice_infer_def sel rm by (rule refl)
  have b: "RuntimeGRPC_infer cp (env\<lparr>infer_reply := r\<lparr>code := NERR_INFER_COMPLETED_WITH_NUM_ERR\<rparr>\<rparr>)
           m maybe_output_tensors nn_id in_names out_names input_tensors sm
       = RuntimeGRPC_infer cp (env\<lparr>infer_reply := r\<lparr>code := NERR_OK\<rparr>\<rparr>)
           m maybe_output_tensors nn_id in_names out_names input_tensors sm"
    unfolding RuntimeGRPC_infer_def sel rm by (rule refl)
  have c: "NeuronDevice_infer_wait cp (r\<lparr>code := NERR_INFER_COMPLETED_WITH_NUM_ERR\<rparr>)
           m output_tensors cookie out_names
       = copy_output_tensors cp m output_tensors (r\<lparr>code := NERR_OK\<rparr>) out_names"
    and c': "NeuronDevice_infer_wait cp (r\<lparr>code := NERR_OK\<rparr>) m output_tensors cookie out_names
       = copy_output_tensors cp m output_tensors (r\<lparr>code := NERR_OK\<rparr>) out_names"
    using ok by (simp_all add: NeuronDevice_infer_wait_def rm Let_def)
  have e: "RuntimeGRPC_infer_wait cp (r\<lparr>code := NERR_INFER_COMPLETED_WITH_NUM_ERR\<rparr>)
           m output_tensors cookie out_names
       = copy_output_tensors cp m output_tensors (r\<lparr>code := NERR_OK\<rparr>) out_names"
    and e': "RuntimeGRPC_infer_wait cp (r\<lparr>code := NERR_OK\<rparr>) m output_tensors cookie out_names
       = copy_output_tensors cp m output_tensors (r\<lparr>code := NERR_OK\<rparr>) out_names"
    using ok by (simp_all add: RuntimeGRPC_infer_wait_def rm Let_def)
  have ok': "nrt_ok (ignore_num_err (infer_reply env'))"
    unfolding sel' by (rule ok)
  have f: "\<forall>entries m1 shm_entries response'.
           fst (start_model K (stop_reply env) (start_reply env) d nn_id) = OK
           \<and> build_ifmap (enabled shm) (input_names shm) (input_ptrs shm) in_names input_tensors m
               = Some (entries, m1)
           \<and> (if enabled shm then build_shm_ofmap (output_names shm) out_names else Some [])
               = Some shm_entries
           \<and> (if enabled shm
               then add_shm_ofmap (daemon_writes env m1) (output_ptrs shm) (output_sizes shm)
                      out_names (r\<lparr>code := NERR_OK\<rparr>)
               else Some (r\<lparr>code := NERR_OK\<rparr>)) = Some response'
           \<longrightarrow>
           NeuronDevice_infer K cp env' d m output_tensors nn_id in_names out_names input_tensors shm
             = (fst (copy_output_tensors cp (daemon_writes env m1) output_tensors response' out_names),
                fst (snd (start_model K (stop_reply env) (start_reply env) d nn_id)),
                snd (copy_output_tensors cp (daemon_writes env m1) output_tensors response' out_names),
                snd (snd (start_model K (stop_reply env) (start_reply env) d nn_id)),
                Some \<lparr>ifmap = entries, shm_ofmap = shm_entries, infer_h_nn = nn_id\<rparr>)"
    using NeuronDevice_infer_accepted [OF ok', of K d nn_id shm in_names input_tensors m _ _
        out_names _ _ cp output_tensors]
    unfolding sel' by blast
  have g: "\<forall>entries m1 shm_entries response'.
           build_ifmap (sm_enabled sm) (sm_input_paths sm) (sm_input_ptrs sm) in_names
               input_tensors m = Some (entries, m1)
           \<and> (if sm_enabled sm then build_shm_ofmap (sm_output_paths sm) out_names else Some [])
               = Some shm_entries
           \<and> (if sm_enabled sm
               then add_shm_ofmap (daemon_writes env m1) (sm_output_ptrs sm) (sm_output_sizes sm)
                      out_names (r\<lparr>code := NERR_OK\<rparr>)
               else Some (r\<lparr>code := NERR_OK\<rparr>)) = Some response'
           \<longrightarrow>
           RuntimeGRPC_infer cp env' m maybe_output_tensors nn_id in_names out_names input_tensors sm
             = (case maybe_output_tensors of
                  None \<Rightarrow> (Returned OK, daemon_writes env m1,
                           Some \<lparr>ifmap = entries, shm_ofmap = shm_entries, infer_h_nn = nn_id\<rparr>)
                | Some outs \<Rightarrow>
                    (fst (copy_output_tensors cp (daemon_writes env m1) outs response' out_names),
                     snd (copy_output_tensors cp (daemon_writes env m1) outs response' out_names),
                     Some \<lparr>ifmap = entries, shm_ofmap = shm_entries, infer_h_nn = nn_id\<rparr>))"
    using RuntimeGRPC_infer_accepted [OF ok', of sm in_names input_tensors m _ _ out_names _ _
        cp maybe_output_tensors nn_id]
    unfolding sel' by blast
  show ?thesis
    using a b c e f g unfolding c' e' env'_def by (intro conjI) assumption+
qed

theorem num_err_treated_as_ok_witness:
  "grpc num_err_reply = GRPC_OK
   \<and> infer_outcome (NeuronDevice_infer example_consts store_bytes
         (daemon_ok\<lparr>infer_reply := num_err_reply\<lparr>code := NERR_INFER_COMPLETED_WITH_NUM_ERR\<rparr>\<rparr>)
         group9 example_mem [example_tensor] 5 [''in''] [''out''] [example_tensor] no_shm)
       = Returned OK
   \<and> map (infer_mem (NeuronDevice_infer example_consts store_bytes
         (daemon_ok\<lparr>infer_reply := num_err_reply\<lparr>code := NERR_INFER_COMPLETED_WITH_NUM_ERR\<rparr>\<rparr>)
         group9 example_mem [example_tensor] 5 [''in''] [''out''] [example_tensor] no_shm))
         [16, 17, 18, 19] = [1, 2, 3, 4]
   \<and> infer_rpcs (NeuronDevice_infer example_consts store_bytes
         (daemon_ok\<lparr>infer_reply := num_err_reply\<lparr>code := NERR_INFER_COMPLETED_WITH_NUM_ERR\<rparr>\<rparr>)
         group9 example_mem [example_tensor] 5 [''in''] [''out''] [example_tensor] no_shm)
       = [Start 5]
   \<and> fst (RuntimeGRPC_infer store_bytes
         (daemon_ok\<lparr>infer_reply := num_err_reply\<lparr>code := NERR_INFER_COMPLETED_WITH_NUM_ERR\<rparr>\<rparr>)
         example_mem (Some [example_tensor]) 5 [''in''] [''out''] [example_tensor] no_sm)
       = Returned OK
   \<and> map (fst (snd (RuntimeGRPC_infer store_bytes
         (daemon_ok\<lparr>infer_reply := num_err_reply\<lparr>code := NERR_INFER_COMPLETED_WITH_NUM_ERR\<rparr>\<rparr>)
         example_mem (Some [example_tensor]) 5 [''in''] [''out''] [example_tensor] no_sm)))
         [16, 17, 18, 19] = [1, 2, 3, 4]
   \<and> fst (NeuronDevice_infer_wait store_bytes
            (num_err_reply\<lparr>code := NERR_INFER_COMPLETED_WITH_NUM_ERR\<rparr>)
            example_mem [example_tensor] 0 [''out'']) = Returned OK
   \<and> map (snd (NeuronDevice_infer_wait store_bytes
            (num_err_reply\<lparr>code := NERR_INFER_COMPLETED_WITH_NUM_ERR\<rparr>)
            example_mem [example_tensor] 0 [''out''])) [16, 17, 18, 19] = [1, 2, 3, 4]
   \<and> grpc shm_reply = GRPC_OK
   \<and> infer_outcome (NeuronDevice_infer example_consts store_bytes
         (daemon_shm\<lparr>infer_reply := shm_reply\<lparr>code := NERR_INFER_COMPLETED_WITH_NUM_ERR\<rparr>\<rparr>)
         group9 example_mem [example_tensor] 5 [''in''] [''out''] [example_tensor] example_shm)
       = Returned OK
   \<and> map (infer_mem (NeuronDevice_infer example_consts store_bytes
         (daemon_shm\<lparr>infer_reply := shm_reply\<lparr>code := NERR_INFER_COMPLETED_WITH_NUM_ERR\<rparr>\<rparr>)
         group9 example_mem [example_tensor] 5 [''in''] [''out''] [example_tensor] example_shm))
         [16, 17, 18, 19, 100, 101, 102, 103] = [9, 8, 7, 6, 16, 17, 18, 19]"
proof -
  define entries :: "infer_io list" where "entries = [(''in'', Buf [16, 17, 18, 19])]"
  have g: "grpc num_err_reply = GRPC_OK"
    by (simp add: num_err_reply_def)
  note th = num_err_treated_as_ok [OF g, where K = example_consts and cp = store_bytes
      and env = daemon_ok and d = group9 and m = example_mem
      and output_tensors = "[example_tensor]" and nn_id = 5 and in_names = "[''in'']"
      and out_names = "[''out'']" and input_tensors = "[example_tensor]" and shm = no_shm
      and cookie = 0 and maybe_output_tensors = "Some [example_tensor]" and sm = no_sm]
  have sm: "start_model example_consts (stop_reply daemon_ok) (start_reply daemon_ok) group9 5
      = (OK, set_running group9 5, [Start 5])"
    by (simp add: start_model_def daemon_ok_def accepted_def nrt_ok_def group9_def
        fresh_device_def example_consts_def running_def is_busy_def set_running_def Let_def)
  have st: "fst (start_model example_consts (stop_reply daemon_ok) (start_reply daemon_ok) group9 5)
      = OK"
    unfolding sm by simp
  have bi: "build_ifmap (enabled no_shm) (input_names no_shm) (input_ptrs no_shm) [''in'']
      [example_tensor] example_mem = Some (entries, example_mem)"
    by (simp add: build_ifmap_def ifmap_step_def no_shm_def example_shm_def example_tensor_def
        read_bytes_def example_mem_def entries_def Let_def upt_conv_Cons)
  have bi': "build_ifmap (sm_enabled no_sm) (sm_input_paths no_sm) (sm_input_ptrs no_sm) [''in'']
      [example_tensor] example_mem = Some (entries, example_mem)"
    by (simp add: build_ifmap_def ifmap_step_def no_sm_def example_tensor_def
        read_bytes_def example_mem_def entries_def Let_def upt_conv_Cons)
  have bo: "(if enabled no_shm then build_shm_ofmap (output_names no_shm) [''out''] else Some [])
      = Some []"
    and ao: "(if enabled no_shm
               then add_shm_ofmap (daemon_writes daemon_ok example_mem) (output_ptrs no_shm)
                      (output_sizes no_shm) [''out''] (num_err_reply\<lparr>code := NERR_OK\<rparr>)
               else Some (num_err_reply\<lparr>code := NERR_OK\<rparr>))
      = Some (num_err_reply\<lparr>code := NERR_OK\<rparr>)"
    by (simp_all add: no_shm_def)
  have bo': "(if sm_enabled no_sm then build_shm_ofmap (sm_output_paths no_sm) [''out'']
              else Some []) = Some []"
    and ao': "(if sm_enabled no_sm
               then add_shm_ofmap (daemon_writes daemon_ok example_mem) (sm_output_ptrs no_sm)
                      (sm_output_sizes no_sm) [''out''] (num_err_reply\<lparr>code := NERR_OK\<rparr>)
               else Some (num_err_reply\<lparr>code := NERR_OK\<rparr>))
      = Some (num_err_reply\<lparr>code := NERR_OK\<rparr>)"
    by (simp_all add: no_sm_def)
  have dw: "daemon_writes daemon_ok example_mem = example_mem"
    by (simp add: daemon_ok_def)
  have cp: "fst (copy_output_tensors store_bytes example_mem [example_tensor]
                   (num_err_reply\<lparr>code := NERR_OK\<rparr>) [''out'']) = Returned OK"
    and cm: "map (snd (copy_output_tensors store_bytes example_mem [example_tensor]
                   (num_err_reply\<lparr>code := NERR_OK\<rparr>) [''out''])) [16, 17, 18, 19] = [1, 2, 3, 4]"
    by (simp_all add: copy_output_tensors_def num_err_reply_def store_bytes_def
        example_tensor_def Let_def)
  have a: "NeuronDevice_infer example_consts store_bytes
         (daemon_ok\<lparr>infer_reply := num_err_reply\<lparr>code := NERR_INFER_COMPLETED_WITH_NUM_ERR\<rparr>\<rparr>)
         group9 example_mem [example_tensor] 5 [''in''] [''out''] [example_tensor] no_shm
      = (fst (copy_output_tensors store_bytes (daemon_writes daemon_ok example_mem)
                [example_tensor] (num_err_reply\<lparr>code := NERR_OK\<rparr>) [''out'']),
         fst (snd (start_model example_consts (stop_reply daemon_ok) (start_reply daemon_ok)
                group9 5)),
         snd (copy_output_tensors store_bytes (daemon_writes daemon_ok example_mem)
                [example_tensor] (num_err_reply\<lparr>code := NERR_OK\<rparr>) [''out'']),
         snd (snd (start_model example_consts (stop_reply daemon_ok) (start_reply daemon_ok)
                group9 5)),
         Some \<lparr>ifmap = entries, shm_ofmap = [], infer_h_nn = 5\<rparr>)"
    using th st bi bo ao by blast
  have b: "RuntimeGRPC_infer store_bytes
         (daemon_ok\<lparr>infer_reply := num_err_reply\<lparr>code := NERR_INFER_COMPLETED_WITH_NUM_ERR\<rparr>\<rparr>)
         example_mem (Some [example_tensor]) 5 [''in''] [''out''] [example_tensor] no_sm
      = (case Some [example_tensor] of
           None \<Rightarrow> (Returned OK, daemon_writes daemon_ok example_mem,
                    Some \<lparr>ifmap = entries, shm_ofmap = [], infer_h_nn = 5\<rparr>)
         | Some outs \<Rightarrow>
             (fst (copy_output_tensors store_bytes (daemon_writes daemon_ok example_mem) outs
                     (num_err_reply\<lparr>code := NERR_OK\<rparr>) [''out'']),
              snd (copy_output_tensors store_bytes (daemon_writes daemon_ok example_mem) outs
                     (num_err_reply\<lparr>code := NERR_OK\<rparr>) [''out'']),
              Some \<lparr>ifmap = entries, shm_ofmap = [], infer_h_nn = 5\<rparr>))"
    using th bi' bo' ao' by blast
  have w: "NeuronDevice_infer_wait store_bytes
            (num_err_reply\<lparr>code := NERR_INFER_COMPLETED_WITH_NUM_ERR\<rparr>)
            example_mem [example_tensor] 0 [''out'']
      = copy_output_tensors store_bytes example_mem [example_tensor]
          (num_err_reply\<lparr>code := NERR_OK\<rparr>) [''out'']"
    using th by blast
    define m1 where "m1 = std_memcpy example_mem 100 16 4"
  define m2 where "m2 = daemon_writes daemon_shm m1"
  define response' where "response' = shm_reply\<lparr>code := NERR_OK, ofmap := [(''out'', [9, 8, 7, 6])]\<rparr>"
  have gs: "grpc shm_reply = GRPC_OK"
    by (simp add: shm_reply_def)
  note ths = num_err_treated_as_ok [OF gs, where K = example_consts and cp = store_bytes
      and env = daemon_shm and d = group9 and m = example_mem
      and output_tensors = "[example_tensor]" and nn_id = 5 and in_names = "[''in'']"
      and out_names = "[''out'']" and input_tensors = "[example_tensor]" and shm = example_shm]
  have sts: "fst (start_model example_consts (stop_reply daemon_shm) (start_reply daemon_shm) group9 5)
      = OK"
    by (simp add: start_model_def daemon_shm_def accepted_def nrt_ok_def group9_def
        fresh_device_def example_consts_def running_def is_busy_def set_running_def Let_def)
  have bis: "build_ifmap (enabled example_shm) (input_names example_shm) (input_ptrs example_shm)
      [''in''] [example_tensor] example_mem = Some ([(''in'', BufShm ''/in'')], m1)"
    by (simp add: build_ifmap_def ifmap_step_def example_shm_def example_tensor_def
        m1_def Let_def upt_conv_Cons)
  have bos: "(if enabled example_shm then build_shm_ofmap (output_names example_shm) [''out'']
             else Some []) = Some [(''out'', BufShm ''/out'')]"
    by (simp add: build_shm_ofmap_def example_shm_def upt_conv_Cons)
  have rbs: "read_bytes m2 200 4 = [9, 8, 7, 6]"
    by (simp add: read_bytes_def m2_def daemon_shm_def upt_conv_Cons)
  have aos: "(if enabled example_shm
               then add_shm_ofmap (daemon_writes daemon_shm m1) (output_ptrs example_shm)
                      (output_sizes example_shm) [''out''] (shm_reply\<lparr>code := NERR_OK\<rparr>)
               else Some (shm_reply\<lparr>code := NERR_OK\<rparr>))
      = Some response'"
    using rbs unfolding m2_def
    by (simp add: add_shm_ofmap_def example_shm_def response'_def shm_reply_def upt_conv_Cons)
  have a2: "NeuronDevice_infer example_consts store_bytes
         (daemon_shm\<lparr>infer_reply := shm_reply\<lparr>code := NERR_INFER_COMPLETED_WITH_NUM_ERR\<rparr>\<rparr>)
         group9 example_mem [example_tensor] 5 [''in''] [''out''] [example_tensor] example_shm
      = (fst (copy_output_tensors store_bytes (daemon_writes daemon_shm m1)
                [example_tensor] response' [''out'']),
         fst (snd (start_model example_consts (stop_reply daemon_shm) (start_reply daemon_shm)
                group9 5)),
         snd (copy_output_tensors store_bytes (daemon_writes daemon_shm m1)
                [example_tensor] response' [''out'']),
         snd (snd (start_model example_consts (stop_reply daemon_shm) (start_reply daemon_shm)
                group9 5)),
         Some \<lparr>ifmap = [(''in'', BufShm ''/in'')], shm_ofmap = [(''out'', BufShm ''/out'')],
               infer_h_nn = 5\<rparr>)"
    using ths sts bis bos aos by blast
  have cps: "fst (copy_output_tensors store_bytes (daemon_writes daemon_shm m1) [example_tensor]
                   response' [''out'']) = Returned OK"
    and cms: "map (snd (copy_output_tensors store_bytes (daemon_writes daemon_shm m1)
                   [example_tensor] response' [''out'']))
               [16, 17, 18, 19, 100, 101, 102, 103] = [9, 8, 7, 6, 16, 17, 18, 19]"
    by (simp_all add: copy_output_tensors_def response'_def shm_reply_def store_bytes_def
        example_tensor_def daemon_shm_def m1_def std_memcpy_def example_mem_def Let_def)
    have part1: "grpc num_err_reply = GRPC_OK
   \<and> infer_outcome (NeuronDevice_infer example_consts store_bytes
         (daemon_ok\<lparr>infer_reply := num_err_reply\<lparr>code := NERR_INFER_COMPLETED_WITH_NUM_ERR\<rparr>\<rparr>)
         group9 example_mem [example_tensor] 5 [''in''] [''out''] [example_tensor] no_shm)
       = Returned OK
   \<and> map (infer_mem (NeuronDevice_infer example_consts store_bytes
         (daemon_ok\<lparr>infer_reply := num_err_reply\<lparr>code := NERR_INFER_COMPLETED_WITH_NUM_ERR\<rparr>\<rparr>)
         group9 example_mem [example_tensor] 5 [''in''] [''out''] [example_tensor] no_shm))
         [16, 17, 18, 19] = [1, 2, 3, 4]
   \<and> infer_rpcs (NeuronDevice_infer example_consts store_bytes
         (daemon_ok\<lparr>infer_reply := num_err_reply\<lparr>code := NERR_INFER_COMPLETED_WITH_NUM_ERR\<rparr>\<rparr>)
         group9 example_mem [example_tensor] 5 [''in''] [''out''] [example_tensor] no_shm)
       = [Start 5]
   \<and> fst (RuntimeGRPC_infer store_bytes
         (daemon_ok\<lparr>infer_reply := num_err_reply\<lparr>code := NERR_INFER_COMPLETED_WITH_NUM_ERR\<rparr>\<rparr>)
         example_mem (Some [example_tensor]) 5 [''in''] [''out''] [example_tensor] no_sm)
       = Returned OK
   \<and> map (fst (snd (RuntimeGRPC_infer store_bytes
         (daemon_ok\<lparr>infer_reply := num_err_reply\<lparr>code := NERR_INFER_COMPLETED_WITH_NUM_ERR\<rparr>\<rparr>)
         example_mem (Some [example_tensor]) 5 [''in''] [''out''] [example_tensor] no_sm)))
         [16, 17, 18, 19] = [1, 2, 3, 4]
   \<and> fst (NeuronDevice_infer_wait store_bytes
            (num_err_reply\<lparr>code := NERR_INFER_COMPLETED_WITH_NUM_ERR\<rparr>)
            example_mem [example_tensor] 0 [''out'']) = Returned OK
   \<and> map (snd (NeuronDevice_infer_wait store_bytes
            (num_err_reply\<lparr>code := NERR_INFER_COMPLETED_WITH_NUM_ERR\<rparr>)
            example_mem [example_tensor] 0 [''out''])) [16, 17, 18, 19] = [1, 2, 3, 4]"
    unfolding a b w dw sm infer_outcome_def infer_mem_def infer_rpcs_def
    using g cp cm by simp
  have part2: "grpc shm_reply = GRPC_OK
   \<and> infer_outcome (NeuronDevice_infer example_consts store_bytes
         (daemon_shm\<lparr>infer_reply := shm_reply\<lparr>code := NERR_INFER_COMPLETED_WITH_NUM_ERR\<rparr>\<rparr>)
         group9 example_mem [example_tensor] 5 [''in''] [''out''] [example_tensor] example_shm)
       = Returned OK
   \<and> map (infer_mem (NeuronDevice_infer example_consts store_bytes
         (daemon_shm\<lparr>infer_reply := shm_reply\<lparr>code := NERR_INFER_COMPLETED_WITH_NUM_ERR\<rparr>\<rparr>)
         group9 example_mem [example_tensor] 5 [''in''] [''out''] [example_tensor] example_shm))
         [16, 17, 18, 19, 100, 101, 102, 103] = [9, 8, 7, 6, 16, 17, 18, 19]"
    unfolding a2 infer_outcome_def infer_mem_def
    using gs cps cms by simp
  show ?thesis
    using part1 part2 by blast
qed

section \<open>start\_model and successive inferences\<close>

lemma infer_device_rpcs:
  "infer_device (NeuronDevice_infer K cp env d m output_tensors nn_id in_names out_names
       input_tensors shm) = fst (snd (start_model K (stop_reply env) (start_reply env) d nn_id))"
  "infer_rpcs (NeuronDevice_infer K cp env d m output_tensors nn_id in_names out_names
       input_tensors shm) = snd (snd (start_model K (stop_reply env) (start_reply env) d nn_id))"
  by (auto simp: NeuronDevice_infer_def infer_device_def infer_rpcs_def Let_def
      split: prod.splits option.splits)

lemma infer_ok_started:
  "infer_outcome (NeuronDevice_infer K cp env d m output_tensors nn_id in_names out_names
       input_tensors shm) = Returned OK \<Longrightarrow>
   fst (start_model K (stop_reply env) (start_reply env) d nn_id) = OK"
  by (auto simp: NeuronDevice_infer_def infer_outcome_def Let_def
      split: prod.splits option.splits if_splits)

lemma start_model_ok_running:
  assumes "create_eg_done d" and "fst (start_model K stop_r start_r d nn_id) = OK"
    and "nn_id \<noteq> NRT_INVALID_NN_ID K"
  shows "create_eg_done (fst (snd (start_model K stop_r start_r d nn_id)))
       \<and> running_nn_id (fst (snd (start_model K stop_r start_r d nn_id))) = nn_id"
  using assms
  by (auto simp: start_model_def running_def is_busy_def set_running_def
      nn_get_current_running_def nrt_error_status_def Let_def split: if_splits)


lemma start_model_cases:
  assumes "create_eg_done d"
  shows "start_model K stop_r start_r d nn_id =
     (if running K d nn_id then (OK, d, [])
      else if is_busy K d
      then (if \<not> nrt_ok stop_r then (nrt_error_status ''stop'' stop_r, d, [Stop (running_nn_id d)])
            else if nrt_ok start_r
            then (OK, set_running d nn_id, [Stop (running_nn_id d), Start nn_id])
            else (nrt_error_status ''start'' start_r, set_running d (NRT_INVALID_NN_ID K),
                  [Stop (running_nn_id d), Start nn_id]))
      else (if nrt_ok start_r then (OK, set_running d nn_id, [Start nn_id])
            else (nrt_error_status ''start'' start_r, d, [Start nn_id])))"
proof (cases "running K d nn_id")
  case True
  then show ?thesis using start_model_already_running [OF assms] by simp
next
  case nr: False
  show ?thesis
  proof (cases "is_busy K d")
    case True
    then show ?thesis using nr start_model_switch [OF assms True nr] by simp
  next
    case False
    then show ?thesis using nr start_model_idle [OF assms False] by simp
  qed
qed

lemma spec_start_model_cases:
  "spec_start_model K d nn_id =
     (if running K d nn_id then (d, [])
      else if is_busy K d then (set_running d nn_id, [Stop (running_nn_id d), Start nn_id])
      else (set_running d nn_id, [Start nn_id]))"
  by (auto simp: spec_start_model_def running_def is_busy_def set_running_def Let_def)

text \<open>
  C1 (as the code has it). On a created group, a call of \<open>start_model\<close> issues at most
  one stop and at most one start. If the requested model is running it issues nothing.
  When the daemon accepts the requests, the call does what the spec says: a different
  running model is stopped and the running id cleared, then the requested model is
  started and recorded as running. When the daemon refuses the stop, the call returns
  that error after the one stop, the running id is unchanged and no start is issued;
  when it refuses the start, the call returns that error and no model is recorded as
  running. Consequently, after an \<open>infer\<close> of a valid model that returned OK, an \<open>infer\<close>
  of the same model issues no stop and no start, and an \<open>infer\<close> of another model issues
  the stop of the first and, if that is accepted, the start of the other.
\<close>

theorem start_model_at_most_one_stop_and_start:
  assumes "create_eg_done d"
  shows
    "(case start_model K stop_r start_r d nn_id of
        (st, d', t) \<Rightarrow>
          length (filter is_stop t) \<le> 1 \<and> length (filter is_start t) \<le> 1
          \<and> (running K d nn_id \<longrightarrow> st = OK \<and> d' = d \<and> t = [])
          \<and> (nrt_ok stop_r \<and> nrt_ok start_r \<longrightarrow> st = OK \<and> (d', t) = spec_start_model K d nn_id)
          \<and> (is_busy K d \<and> \<not> running K d nn_id \<and> \<not> nrt_ok stop_r \<longrightarrow>
                st = nrt_error_status ''stop'' stop_r \<and> d' = d \<and> t = [Stop (running_nn_id d)])
          \<and> (is_busy K d \<and> \<not> running K d nn_id \<and> nrt_ok stop_r \<and> \<not> nrt_ok start_r \<longrightarrow>
                st = nrt_error_status ''start'' start_r
                \<and> d' = set_running d (NRT_INVALID_NN_ID K)
                \<and> t = [Stop (running_nn_id d), Start nn_id])
          \<and> (\<not> is_busy K d \<and> \<not> nrt_ok start_r \<longrightarrow>
                st = nrt_error_status ''start'' start_r \<and> d' = d \<and> t = [Start nn_id]))
     \<and> (let first = NeuronDevice_infer K cp env1 d m output_tensors1 nn1 in_names1 out_names1
                       input_tensors1 shm1;
             again = NeuronDevice_infer K cp env2 (infer_device first) (infer_mem first)
                       output_tensors2 nn1 in_names2 out_names2 input_tensors2 shm2;
             other = NeuronDevice_infer K cp env2 (infer_device first) (infer_mem first)
                       output_tensors2 nn2 in_names2 out_names2 input_tensors2 shm2
         in infer_outcome first = Returned OK \<and> nn1 \<noteq> NRT_INVALID_NN_ID K \<longrightarrow>
              infer_rpcs again = []
              \<and> (nn2 \<noteq> nn1 \<longrightarrow>
                   infer_rpcs other
                     = (if nrt_ok (stop_reply env2) then [Stop nn1, Start nn2] else [Stop nn1])))"
proof -
  note c = start_model_cases [OF assms, of K stop_r start_r nn_id]
  note s = spec_start_model_cases [of K d nn_id]
  have part1: "(case start_model K stop_r start_r d nn_id of
        (st, d', t) \<Rightarrow>
          length (filter is_stop t) \<le> 1 \<and> length (filter is_start t) \<le> 1
          \<and> (running K d nn_id \<longrightarrow> st = OK \<and> d' = d \<and> t = [])
          \<and> (nrt_ok stop_r \<and> nrt_ok start_r \<longrightarrow> st = OK \<and> (d', t) = spec_start_model K d nn_id)
          \<and> (is_busy K d \<and> \<not> running K d nn_id \<and> \<not> nrt_ok stop_r \<longrightarrow>
                st = nrt_error_status ''stop'' stop_r \<and> d' = d \<and> t = [Stop (running_nn_id d)])
          \<and> (is_busy K d \<and> \<not> running K d nn_id \<and> nrt_ok stop_r \<and> \<not> nrt_ok start_r \<longrightarrow>
                st = nrt_error_status ''start'' start_r
                \<and> d' = set_running d (NRT_INVALID_NN_ID K)
                \<and> t = [Stop (running_nn_id d), Start nn_id])
          \<and> (\<not> is_busy K d \<and> \<not> nrt_ok start_r \<longrightarrow>
                st = nrt_error_status ''start'' start_r \<and> d' = d \<and> t = [Start nn_id]))"
    unfolding c s by (simp add: running_def is_busy_def)
  have part2: "infer_rpcs (NeuronDevice_infer K cp env2 (infer_device first) (infer_mem first)
                       output_tensors2 nn1 in_names2 out_names2 input_tensors2 shm2) = []
       \<and> (nn2 \<noteq> nn1 \<longrightarrow>
            infer_rpcs (NeuronDevice_infer K cp env2 (infer_device first) (infer_mem first)
                       output_tensors2 nn2 in_names2 out_names2 input_tensors2 shm2)
              = (if nrt_ok (stop_reply env2) then [Stop nn1, Start nn2] else [Stop nn1]))"
    if f: "first = NeuronDevice_infer K cp env1 d m output_tensors1 nn1 in_names1 out_names1
                       input_tensors1 shm1"
      and ok: "infer_outcome first = Returned OK" and v: "nn1 \<noteq> NRT_INVALID_NN_ID K"
    for first
  proof -
    define d1 where "d1 = infer_device first"
    have st: "fst (start_model K (stop_reply env1) (start_reply env1) d nn1) = OK"
      using ok unfolding f by (rule infer_ok_started)
    have d1: "d1 = fst (snd (start_model K (stop_reply env1) (start_reply env1) d nn1))"
      unfolding d1_def f by (rule infer_device_rpcs)
    have cr: "create_eg_done d1" and rn: "running_nn_id d1 = nn1"
      using start_model_ok_running [OF assms st v] unfolding d1 by simp_all
    have run: "running K d1 nn1" and busy: "is_busy K d1"
      using rn v by (simp_all add: running_def is_busy_def)
    have a: "snd (snd (start_model K (stop_reply env2) (start_reply env2) d1 nn1)) = []"
      using start_model_already_running [OF cr run] by simp
    have b: "snd (snd (start_model K (stop_reply env2) (start_reply env2) d1 nn2))
        = (if nrt_ok (stop_reply env2) then [Stop nn1, Start nn2] else [Stop nn1])"
      if "nn2 \<noteq> nn1"
    proof -
      have nr: "\<not> running K d1 nn2" using that rn by (auto simp: running_def)
      show ?thesis
        using start_model_switch [OF cr busy nr, of "stop_reply env2" "start_reply env2"] rn
        by simp
    qed
    show ?thesis
      unfolding infer_device_rpcs d1_def [symmetric] using a b by blast
  qed
  show ?thesis
    unfolding Let_def using part1 part2 by blast
qed


theorem start_model_at_most_one_stop_and_start_witness:
  "create_eg_done group9
   \<and> start_model example_consts accepted accepted group9 5 = (OK, set_running group9 5, [Start 5])
   \<and> infer_outcome (example_infer daemon_ok group9 example_mem 5) = Returned OK
   \<and> (5 :: u32) \<noteq> NRT_INVALID_NN_ID example_consts
   \<and> infer_rpcs (example_infer daemon_ok
         (infer_device (example_infer daemon_ok group9 example_mem 5))
         (infer_mem (example_infer daemon_ok group9 example_mem 5)) 5) = []
   \<and> infer_rpcs (example_infer daemon_ok
         (infer_device (example_infer daemon_ok group9 example_mem 5))
         (infer_mem (example_infer daemon_ok group9 example_mem 5)) 7) = [Stop 5, Start 7]"
proof -
  have cr: "create_eg_done group9"
    by (simp add: group9_def fresh_device_def)
  have v: "(5 :: u32) \<noteq> NRT_INVALID_NN_ID example_consts"
    by (simp add: example_consts_def)
  have acc: "nrt_ok accepted" "nrt_ok (stop_reply daemon_ok)"
    by (simp_all add: nrt_ok_def accepted_def daemon_ok_def)
  have idle: "\<not> is_busy example_consts group9" "\<not> running example_consts group9 5"
    by (simp_all add: is_busy_def running_def group9_def fresh_device_def example_consts_def)
  have sm: "start_model example_consts accepted accepted group9 5 = (OK, set_running group9 5, [Start 5])"
    using start_model_idle [OF cr idle(1), where stop_r = accepted and start_r = accepted
        and nn_id = 5] acc by simp
  have sm': "start_model example_consts (stop_reply daemon_ok) (start_reply daemon_ok) group9 5
      = (OK, set_running group9 5, [Start 5])"
    using sm by (simp add: daemon_ok_def)
  have ok: "infer_outcome (example_infer daemon_ok group9 example_mem 5) = Returned OK"
    unfolding example_infer_def NeuronDevice_infer_def sm' infer_outcome_def
    by (simp add: no_shm_def example_shm_def build_ifmap_def ifmap_step_def daemon_ok_def
        num_err_reply_def ignore_num_err_def nrt_ok_def copy_output_tensors_def store_bytes_def
        example_tensor_def Let_def)
  note th = start_model_at_most_one_stop_and_start [OF cr, where K = example_consts
      and stop_r = accepted and start_r = accepted and nn_id = 5 and cp = store_bytes
      and ?env1.0 = daemon_ok and m = example_mem and ?output_tensors1.0 = "[example_tensor]"
      and ?nn1.0 = 5 and ?in_names1.0 = "[''in'']" and ?out_names1.0 = "[''out'']"
      and ?input_tensors1.0 = "[example_tensor]" and ?shm1.0 = no_shm
      and ?env2.0 = daemon_ok and ?output_tensors2.0 = "[example_tensor]"
      and ?in_names2.0 = "[''in'']" and ?out_names2.0 = "[''out'']"
      and ?input_tensors2.0 = "[example_tensor]" and ?shm2.0 = no_shm and ?nn2.0 = 7]
  have cons: "infer_rpcs (example_infer daemon_ok
         (infer_device (example_infer daemon_ok group9 example_mem 5))
         (infer_mem (example_infer daemon_ok group9 example_mem 5)) 5) = []
     \<and> infer_rpcs (example_infer daemon_ok
         (infer_device (example_infer daemon_ok group9 example_mem 5))
         (infer_mem (example_infer daemon_ok group9 example_mem 5)) 7) = [Stop 5, Start 7]"
    using th ok v acc(2) unfolding Let_def example_infer_def by simp
  show ?thesis
    using cr sm ok v cons by blast
qed

theorem start_model_failed_stop_counterexample:
  "create_eg_done running5 \<and> is_busy example_consts running5 \<and> running_nn_id running5 \<noteq> 7
   \<and> start_model example_consts refused accepted running5 7
       = (nrt_error_status ''stop'' refused, running5, [Stop 5])
   \<and> spec_start_model example_consts running5 7 = (set_running running5 7, [Stop 5, Start 7])
   \<and> snd (start_model example_consts refused accepted running5 7)
       \<noteq> spec_start_model example_consts running5 7
   \<and> infer_rpcs (example_infer (daemon_ok\<lparr>stop_reply := refused\<rparr>) running5 example_mem 7)
       = [Stop 5]"
  by (simp add: start_model_def spec_start_model_def running5_def fresh_device_def
      example_consts_def refused_def accepted_def nrt_ok_def nrt_error_status_def is_busy_def
      running_def set_running_def nn_get_current_running_def Let_def
      infer_rpcs_def example_infer_def NeuronDevice_infer_def daemon_ok_def)

end
